theory Spec2Isabelle
  imports Complex_Main "HOL-Library.AList" "HOL-Library.Multiset"
begin

section \<open>Generalized inner-product retrieval (retrieval/gip\_retrieval.py)\<close>

text \<open>
  The embedding follows \<^verbatim>\<open>src/retrieval/gip_retrieval.py\<close>.

  \<^item> A float tensor of shape \<open>(D)\<close> is a \<open>real list\<close>, one of shape \<open>(N, D)\<close> a list of
    rows. Arithmetic is exact: rounding, infinities and NaN of 32-bit floats are not
    modelled.
  \<^item> An integer tensor of argument ids is an \<open>int list\<close> (a list of rows for a matrix).
  \<^item> Counts read from the command line (\<open>topk\<close>, \<open>agip_topk\<close>, \<open>emb_dim\<close>,
    \<open>total_shrad\<close>, \<open>shrad\<close>) are natural numbers.
  \<^item> Every exception of the source is a value of type \<open>error\<close>; a function that may raise
    returns \<open>error + 'a\<close>.
  \<^item> All tensors of one run share one width \<open>D\<close>. An input that breaks this is reported as
    \<open>ShapeMismatch\<close>; torch's broadcasting of width-1 tensors is not modelled.
\<close>

datatype error =
    TopkOutOfRange      \<comment> \<open>RuntimeError of \<^verbatim>\<open>torch.topk\<close>: selected index k out of range\<close>
  | ShapeMismatch       \<comment> \<open>RuntimeError of an elementwise operation or of einsum\<close>
  | IndexOutOfRange     \<comment> \<open>IndexError\<close>
  | ZeroDivision        \<comment> \<open>ZeroDivisionError\<close>
  | KeyError            \<comment> \<open>KeyError of a dictionary lookup\<close>
  | TypeError           \<comment> \<open>TypeError: \<^verbatim>\<open>None\<close> padded or subscripted, an int enumerated\<close>
  | NameError           \<comment> \<open>NameError: a name that is not bound\<close>
  | AssertionError      \<comment> \<open>AssertionError of an \<^verbatim>\<open>assert\<close>\<close>

type_synonym vec = "real list"
type_synonym argidx = "int list"

record args =
  emb_dim :: nat
  theta :: real
  topk :: nat
  agip_topk :: nat
  IP :: bool
  PQIP :: bool
  brute_force :: bool
  rerank :: bool
  lamda :: real
  total_shrad :: nat
  shrad :: nat
  batch :: nat
  run_name :: string
  faiss_pq_index_path :: "string option"

text \<open>The defaults of the argument parser (lines 235-252).\<close>

definition default_args :: args where
  "default_args =
     \<lparr>emb_dim = 768, theta = 1 / 10, topk = 1000, agip_topk = 10000, IP = False,
      PQIP = False, brute_force = False, rerank = False, lamda = 1, total_shrad = 1,
      shrad = 0, batch = 1, run_name = ''h2oloo'', faiss_pq_index_path = None\<rparr>"

subsection \<open>Tensor operations\<close>

text \<open>\<^verbatim>\<open>torch.einsum('ij,j->i', (m, q))\<close>: the dot product of every row of \<open>m\<close> with \<open>q\<close>.\<close>

definition dot :: "vec \<Rightarrow> vec \<Rightarrow> real" where
  "dot c q = sum_list (map (\<lambda>(x, y). x * y) (zip c q))"

definition einsum_ij_j :: "vec list \<Rightarrow> vec \<Rightarrow> real list" where
  "einsum_ij_j m q = map (\<lambda>row. dot row q) m"

text \<open>
  \<^verbatim>\<open>(corpus_arg_idxs == query_arg_idx) * corpus_embs\<close>: the boolean mask times the
  embeddings keeps an entry where the argument ids agree and puts 0 elsewhere.
\<close>

definition gate_row :: "argidx \<Rightarrow> argidx \<Rightarrow> vec \<Rightarrow> vec" where
  "gate_row ca qa c = map (\<lambda>((a, b), e). if a = b then e else 0) (zip (zip ca qa) c)"

definition gate :: "argidx list \<Rightarrow> argidx \<Rightarrow> vec list \<Rightarrow> vec list" where
  "gate cargs qa cembs = map (\<lambda>(ca, c). gate_row ca qa c) (zip cargs cembs)"

text \<open>Indexing by a list of indices: \<^verbatim>\<open>x[idx]\<close> for a vector, \<^verbatim>\<open>m[:, idx]\<close> for a matrix.\<close>

definition select :: "'a list \<Rightarrow> nat list \<Rightarrow> 'a list" where
  "select xs idx = map (\<lambda>i. xs ! i) idx"

definition cols :: "'a list list \<Rightarrow> nat list \<Rightarrow> 'a list list" where
  "cols m idx = map (\<lambda>row. select row idx) m"

text \<open>\<^verbatim>\<open>torch.nn.functional.pad(x, (0, cls_dim), mode='constant', value=1)\<close>.\<close>

definition pad :: "nat \<Rightarrow> argidx list \<Rightarrow> argidx list" where
  "pad cls_dim m = map (\<lambda>row. row @ replicate cls_dim 1) m"

text \<open>
  \<^verbatim>\<open>torch.argsort(scores, descending=True)\<close> and \<^verbatim>\<open>torch.topk(scores, k, dim=0).indices\<close>.
  Both return indices by descending score. The order among equal scores is not fixed by
  torch. The model has to return one list and keeps equal scores in encounter order (a
  stable sort), the order the specification names; torch may return tied indices in
  another order. The properties below are stated so that they do not depend on this
  choice: they speak of the scores, or of the indices through \<open>argsort_desc\<close> itself,
  or they assume that no two scores are equal. \<^verbatim>\<open>torch.topk\<close> raises when \<open>k\<close> exceeds
  the number of scores.
\<close>

definition argsort_desc :: "real list \<Rightarrow> nat list" where
  "argsort_desc xs = sort_key (\<lambda>i. - (xs ! i)) [0..<length xs]"

definition torch_topk :: "real list \<Rightarrow> nat \<Rightarrow> error + nat list" where
  "torch_topk xs k =
     (if k \<le> length xs then Inr (take k (argsort_desc xs)) else Inl TopkOutOfRange)"

subsection \<open>Shapes\<close>

definition embs_ok :: "vec \<Rightarrow> vec list \<Rightarrow> bool" where
  "embs_ok q cembs = list_all (\<lambda>c. length c = length q) cembs"

definition args_ok :: "vec \<Rightarrow> argidx \<Rightarrow> vec list \<Rightarrow> argidx list \<Rightarrow> bool" where
  "args_ok q qa cembs cargs =
     (length qa = length q \<and> length cargs = length cembs \<and>
      list_all (\<lambda>a. length a = length q) cargs)"

subsection \<open>Scores\<close>

text \<open>Lines 119-120 (and 135-136 on the selected columns): the gated scores of all rows.\<close>

definition gip_scores :: "vec \<Rightarrow> argidx \<Rightarrow> vec list \<Rightarrow> argidx list \<Rightarrow> error + real list" where
  "gip_scores q qa cembs cargs =
     (if embs_ok q cembs \<and> args_ok q qa cembs cargs
      then Inr (einsum_ij_j (gate cargs qa cembs) q)
      else Inl ShapeMismatch)"

text \<open>Lines 74 and 139: the plain inner product with every row.\<close>

definition ip_scores :: "vec \<Rightarrow> vec list \<Rightarrow> error + real list" where
  "ip_scores q cembs =
     (if embs_ok q cembs then Inr (einsum_ij_j cembs q) else Inl ShapeMismatch)"

text \<open>
  Lines 144-150 of \<^verbatim>\<open>GIP_retrieval\<close> and lines 207-212 of \<^verbatim>\<open>PQ_IP_retrieval\<close>, the same
  code: the rows of the shortlist are gated over all dimensions and scored, the best
  \<open>topk\<close> positions of the shortlist are selected and mapped back to corpus indices.
\<close>

definition GIP_rerank ::
  "nat \<Rightarrow> vec \<Rightarrow> argidx \<Rightarrow> vec list \<Rightarrow> argidx list \<Rightarrow> nat list \<Rightarrow> error + (nat list \<times> real list)"
where
  "GIP_rerank k q qa cembs cargs candidates =
     (if \<not> list_all (\<lambda>c. c < length cembs \<and> c < length cargs) candidates
      then Inl IndexOutOfRange
      else case gip_scores q qa (select cembs candidates) (select cargs candidates) of
             Inl e \<Rightarrow> Inl e
           | Inr scores \<Rightarrow>
               (case torch_topk scores k of
                  Inl e \<Rightarrow> Inl e
                | Inr sort_idx \<Rightarrow> Inr (select candidates sort_idx, select scores sort_idx)))"

subsection \<open>One iteration of the query loop of \<^verbatim>\<open>GIP_retrieval\<close> (lines 117-156)\<close>

definition num_idx :: "real \<Rightarrow> vec \<Rightarrow> nat" where
  "num_idx th q = length (filter (\<lambda>x. x > th) q)"

definition partial_scores ::
  "args \<Rightarrow> vec \<Rightarrow> argidx \<Rightarrow> vec list \<Rightarrow> argidx list \<Rightarrow> error + real list"
where
  "partial_scores a q qa cembs cargs =
     (case torch_topk q (num_idx (theta a) q) of
        Inl e \<Rightarrow> Inl e
      | Inr important_idx \<Rightarrow>
          if \<not> IP a then
            (if embs_ok q cembs \<and> args_ok q qa cembs cargs
             then gip_scores (select q important_idx) (select qa important_idx)
                    (cols cembs important_idx) (cols cargs important_idx)
             else Inl ShapeMismatch)
          else ip_scores q cembs)"

definition GIP_query ::
  "args \<Rightarrow> vec \<Rightarrow> argidx \<Rightarrow> vec list \<Rightarrow> argidx list \<Rightarrow> error + (nat list \<times> real list)"
where
  "GIP_query a q qa cembs cargs =
     (if theta a = 0 then
        (case gip_scores q qa cembs cargs of
           Inl e \<Rightarrow> Inl e
         | Inr scores \<Rightarrow>
             (case torch_topk scores (topk a) of
                Inl e \<Rightarrow> Inl e
              | Inr sort_idx \<Rightarrow> Inr (sort_idx, select scores sort_idx)))
      else
        (case partial_scores a q qa cembs cargs of
           Inl e \<Rightarrow> Inl e
         | Inr ps \<Rightarrow>
             if rerank a then
               (case torch_topk ps (agip_topk a) of
                  Inl e \<Rightarrow> Inl e
                | Inr candidates \<Rightarrow> GIP_rerank (topk a) q qa cembs cargs candidates)
             else
               (case torch_topk ps (topk a) of
                  Inl e \<Rightarrow> Inl e
                | Inr sort_candidates \<Rightarrow> Inr (sort_candidates, select ps sort_candidates))))"

subsection \<open>The query loops\<close>

text \<open>
  \<^verbatim>\<open>all_results\<close> and \<^verbatim>\<open>all_scores\<close> are Python dictionaries: association lists in
  insertion order, where storing under a key that is present replaces its value in place
  (\<open>AList.update\<close>).
\<close>

type_synonym 'id results = "('id \<times> nat list) list"
type_synonym 'id scores = "('id \<times> real list) list"

text \<open>
  The loop \<^verbatim>\<open>for i, x in enumerate(...)\<close> of \<^verbatim>\<open>IP_retrieval\<close> and \<^verbatim>\<open>GIP_retrieval\<close>:
  the body computes the ranking of query \<open>i\<close>, then stores it under \<^verbatim>\<open>qids[i]\<close>.
\<close>

fun retrieval_loop ::
  "('q \<Rightarrow> error + (nat list \<times> real list)) \<Rightarrow> 'id list \<Rightarrow> nat \<Rightarrow> 'q list \<Rightarrow>
   'id results \<times> 'id scores \<Rightarrow> error + ('id results \<times> 'id scores)"
where
  "retrieval_loop body qids i [] acc = Inr acc"
| "retrieval_loop body qids i (x # xs) acc =
     (case body x of
        Inl e \<Rightarrow> Inl e
      | Inr (sort_candidates, sort_scores) \<Rightarrow>
          if i < length qids
          then retrieval_loop body qids (Suc i) xs
                 (AList.update (qids ! i) sort_candidates (fst acc),
                  AList.update (qids ! i) sort_scores (snd acc))
          else Inl IndexOutOfRange)"

text \<open>\<^verbatim>\<open>query_embs.shape[1]\<close>, read on a matrix that has a row.\<close>

definition width :: "'a list list \<Rightarrow> nat" where
  "width m = (case m of [] \<Rightarrow> 0 | row # _ \<Rightarrow> length row)"

text \<open>Lines 74-76: one iteration of \<^verbatim>\<open>IP_retrieval\<close>.\<close>

definition IP_query :: "args \<Rightarrow> vec \<Rightarrow> vec list \<Rightarrow> error + (nat list \<times> real list)" where
  "IP_query a q cembs =
     (case ip_scores q cembs of
        Inl e \<Rightarrow> Inl e
      | Inr scores \<Rightarrow>
          (let sort_candidates = take (topk a) (argsort_desc scores)
           in Inr (sort_candidates, select scores sort_candidates)))"

text \<open>
  Both functions end with \<^verbatim>\<open>.../query_embs.shape[0]\<close>, which raises when there is no
  query; the loop has done nothing then, so the model tests it first.
\<close>

definition IP_retrieval ::
  "'id list \<Rightarrow> vec list \<Rightarrow> vec list \<Rightarrow> args \<Rightarrow> error + ('id results \<times> 'id scores)"
where
  "IP_retrieval qids query_embs corpus_embs a =
     (if query_embs = [] then Inl ZeroDivision
      else retrieval_loop (\<lambda>q. IP_query a q corpus_embs) qids 0 query_embs ([], []))"

definition GIP_retrieval ::
  "'id list \<Rightarrow> vec list \<Rightarrow> argidx list \<Rightarrow> vec list \<Rightarrow> argidx list \<Rightarrow> args \<Rightarrow>
   error + ('id results \<times> 'id scores)"
where
  "GIP_retrieval qids query_embs query_arg_idxs corpus_embs corpus_arg_idxs a0 =
     (if query_embs = [] then Inl ZeroDivision
      else
        (let a = (if brute_force a0 then a0\<lparr>theta := 0\<rparr> else a0);
             cls_dim = width query_embs - emb_dim a;
             qargs = (if cls_dim > 0 then pad cls_dim query_arg_idxs else query_arg_idxs);
             cargs = (if cls_dim > 0 then pad cls_dim corpus_arg_idxs else corpus_arg_idxs)
         in retrieval_loop (\<lambda>(q, qa). GIP_query a q qa corpus_embs cargs) qids 0
              (zip query_embs qargs) ([], [])))"

subsection \<open>\<^verbatim>\<open>GIP_retrieval\<close> without corpus argument ids\<close>

text \<open>
  \<^verbatim>\<open>main\<close> tests the query argument ids only (line 321), so \<^verbatim>\<open>GIP_retrieval\<close> is also
  called with \<^verbatim>\<open>corpus_arg_idxs = None\<close> when the corpus snapshot has none. What the
  function then does, line by line:
  \<^item> line 113 pads \<^verbatim>\<open>None\<close> and raises when \<open>cls_dim > 0\<close>;
  \<^item> line 119: \<^verbatim>\<open>None == query_arg_idx\<close> is the Python value \<^verbatim>\<open>False\<close>, and
    \<^verbatim>\<open>False * corpus_embs\<close> is a tensor of zeros, so with \<open>theta = 0\<close> every score is 0;
  \<^item> lines 135 and 144 subscript \<^verbatim>\<open>None\<close> and raise;
  \<^item> line 139 (the IP flag) does not read the corpus argument ids.
\<close>

definition GIP_query_no_corpus_ids ::
  "args \<Rightarrow> vec \<Rightarrow> vec list \<Rightarrow> error + (nat list \<times> real list)"
where
  "GIP_query_no_corpus_ids a q cembs =
     (if theta a = 0 then
        (if embs_ok q cembs then
           (let scores = einsum_ij_j (map (\<lambda>row. map (\<lambda>e. 0) row) cembs) q
            in case torch_topk scores (topk a) of
                 Inl e \<Rightarrow> Inl e
               | Inr sort_idx \<Rightarrow> Inr (sort_idx, select scores sort_idx))
         else Inl ShapeMismatch)
      else
        (case torch_topk q (num_idx (theta a) q) of
           Inl e \<Rightarrow> Inl e
         | Inr important_idx \<Rightarrow>
             if \<not> IP a then Inl TypeError
             else
               (case ip_scores q cembs of
                  Inl e \<Rightarrow> Inl e
                | Inr ps \<Rightarrow>
                    if rerank a then
                      (case torch_topk ps (agip_topk a) of
                         Inl e \<Rightarrow> Inl e
                       | Inr candidates \<Rightarrow> Inl TypeError)
                    else
                      (case torch_topk ps (topk a) of
                         Inl e \<Rightarrow> Inl e
                       | Inr sort_candidates \<Rightarrow>
                           Inr (sort_candidates, select ps sort_candidates)))))"

definition GIP_retrieval_no_corpus_ids ::
  "'id list \<Rightarrow> vec list \<Rightarrow> argidx list \<Rightarrow> vec list \<Rightarrow> args \<Rightarrow>
   error + ('id results \<times> 'id scores)"
where
  "GIP_retrieval_no_corpus_ids qids query_embs query_arg_idxs corpus_embs a0 =
     (let a = (if brute_force a0 then a0\<lparr>theta := 0\<rparr> else a0);
          cls_dim = width query_embs - emb_dim a
      in if cls_dim > 0 then Inl TypeError
         else if query_embs = [] then Inl ZeroDivision
         else retrieval_loop (\<lambda>(q, qa). GIP_query_no_corpus_ids a q corpus_embs) qids 0
                (zip query_embs query_arg_idxs) ([], []))"

subsection \<open>\<^verbatim>\<open>PQ_IP_retrieval\<close>\<close>

text \<open>
  As shipped the function never ranks anything: the module does not import \<^verbatim>\<open>faiss\<close>
  (only \<^verbatim>\<open>main\<close> does, into its own scope, at line 325), so after the assertion of
  line 168 the call \<^verbatim>\<open>faiss.read_index\<close> of line 170 raises NameError. \<open>faiss_search\<close>
  stands for the index file named by the arguments; it is never searched.
\<close>

definition PQ_IP_retrieval ::
  "(vec \<Rightarrow> nat \<Rightarrow> real list \<times> nat list) \<Rightarrow> 'id list \<Rightarrow> vec list \<Rightarrow> argidx list \<Rightarrow>
   vec list \<Rightarrow> argidx list option \<Rightarrow> args \<Rightarrow> error + ('id results \<times> 'id scores)"
where
  "PQ_IP_retrieval faiss_search qids query_embs query_arg_idxs corpus_embs corpus_arg_idxs a =
     (if faiss_pq_index_path a = None then Inl AssertionError else Inl NameError)"

text \<open>
  Lines 206-221, the body of its loop for one query, which would run were the name
  bound: \<open>found\<close> is the row of scores and candidates that the index returns for the
  query. With rerank the code is that of lines 144-150, except that the shortlist is a
  numpy array: indexed by the one-element tensor that \<open>topk = 1\<close> gives, it yields an
  int where a list is expected, and \<^verbatim>\<open>main\<close> fails when it enumerates the stored
  result (line 338).
\<close>

definition PQ_query ::
  "args \<Rightarrow> vec \<Rightarrow> argidx \<Rightarrow> vec list \<Rightarrow> argidx list \<Rightarrow> real list \<times> nat list \<Rightarrow>
   error + (nat list \<times> real list)"
where
  "PQ_query a q qa cembs cargs found =
     (case found of (scores, candidate) \<Rightarrow>
        if rerank a then
          (case GIP_rerank (topk a) q qa cembs cargs candidate of
             Inl e \<Rightarrow> Inl e
           | Inr r \<Rightarrow> if topk a = 1 then Inl TypeError else Inr r)
        else Inr (take (topk a) candidate, take (topk a) scores))"

subsection \<open>\<^verbatim>\<open>main\<close>: loading, sharding, dispatch and output\<close>

text \<open>A persisted snapshot: vectors, optional argument ids, identifiers (lines 266, 290).\<close>

record 'id snapshot =
  embs :: "vec list"
  arg_idxs :: "argidx list option"
  ids :: "'id list"

text \<open>
  Lines 281-283: the last \<open>cls_dim\<close> columns of the query vectors are weighted by
  \<open>lamda\<close>.
\<close>

definition scale_cls :: "args \<Rightarrow> vec list \<Rightarrow> vec list" where
  "scale_cls a query_embs =
     (let cls_dim = width query_embs - emb_dim a
      in if cls_dim > 0
         then map (\<lambda>q. take (length q - cls_dim) q @
                        map (\<lambda>x. lamda a * x) (drop (length q - cls_dim) q)) query_embs
         else query_embs)"

text \<open>
  Lines 292-306: the slice of one array that shard \<open>shrad\<close> keeps. A Python slice
  \<^verbatim>\<open>xs[lo:hi]\<close> with \<open>0 \<le> lo \<le> hi\<close> is \<open>take (hi - lo) (drop lo xs)\<close>.
\<close>

definition shrad_slice :: "nat \<Rightarrow> nat \<Rightarrow> nat \<Rightarrow> 'a list \<Rightarrow> 'a list" where
  "shrad_slice tot s doc_num_per_shrad xs =
     (if s = tot - 1 then drop (doc_num_per_shrad * s) xs
      else take (doc_num_per_shrad * (s + 1) - doc_num_per_shrad * s)
             (drop (doc_num_per_shrad * s) xs))"

definition load_index :: "nat \<Rightarrow> nat \<Rightarrow> 'id snapshot \<Rightarrow> error + 'id snapshot" where
  "load_index tot s idx =
     (if tot = 0 then Inl ZeroDivision
      else
        (let doc_num_per_shrad = length (ids idx) div tot
         in Inr \<lparr>embs = shrad_slice tot s doc_num_per_shrad (embs idx),
                 arg_idxs = map_option (shrad_slice tot s doc_num_per_shrad) (arg_idxs idx),
                 ids = shrad_slice tot s doc_num_per_shrad (ids idx)\<rparr>))"

text \<open>
  Lines 321-328: the dispatch. Only the query argument ids are tested; absent corpus
  argument ids are passed on as \<^verbatim>\<open>None\<close>.
\<close>

definition dispatch ::
  "(vec \<Rightarrow> nat \<Rightarrow> real list \<times> nat list) \<Rightarrow> args \<Rightarrow> 'id list \<Rightarrow> vec list \<Rightarrow>
   argidx list option \<Rightarrow> vec list \<Rightarrow> argidx list option \<Rightarrow> error + ('id results \<times> 'id scores)"
where
  "dispatch faiss_search a qids query_embs query_arg_idxs corpus_embs corpus_arg_idxs =
     (case query_arg_idxs of
        Some qargs \<Rightarrow>
          if \<not> PQIP a then
            (case corpus_arg_idxs of
               Some cargs \<Rightarrow> GIP_retrieval qids query_embs qargs corpus_embs cargs a
             | None \<Rightarrow> GIP_retrieval_no_corpus_ids qids query_embs qargs corpus_embs a)
          else PQ_IP_retrieval faiss_search qids query_embs qargs corpus_embs corpus_arg_idxs a
      | None \<Rightarrow> IP_retrieval qids query_embs corpus_embs a)"

definition main_retrieve ::
  "(vec \<Rightarrow> nat \<Rightarrow> real list \<times> nat list) \<Rightarrow> args \<Rightarrow> 'id snapshot \<Rightarrow> 'id snapshot \<Rightarrow>
   error + ('id results \<times> 'id scores)"
where
  "main_retrieve faiss_search a queries index =
     (case load_index (total_shrad a) (shrad a) index of
        Inl e \<Rightarrow> Inl e
      | Inr corpus \<Rightarrow>
          dispatch faiss_search a (ids queries) (scale_cls a (embs queries))
            (arg_idxs queries) (embs corpus) (arg_idxs corpus))"

text \<open>
  Lines 338-342: the rows written for one query. A row is the query id, the document
  id, the rank, the score and the run name.
\<close>

type_synonym 'id row = "'id \<times> 'id \<times> nat \<times> real \<times> string"

fun write_rows ::
  "string \<Rightarrow> 'id list \<Rightarrow> 'id \<Rightarrow> real list \<Rightarrow> nat \<Rightarrow> nat list \<Rightarrow> error + 'id row list"
where
  "write_rows run docids query_id score rank [] = Inr []"
| "write_rows run docids query_id score rank (docidx # result) =
     (if docidx < length docids then
        (let docid = docids ! docidx in
         if docid \<noteq> query_id then
           (if rank < length score then
              (case write_rows run docids query_id score (Suc rank) result of
                 Inl e \<Rightarrow> Inl e
               | Inr out \<Rightarrow> Inr ((query_id, docid, rank + 1, score ! rank, run) # out))
            else Inl IndexOutOfRange)
         else write_rows run docids query_id score (Suc rank) result)
      else Inl IndexOutOfRange)"

text \<open>Lines 334-342: the rows of all queries, in the order of the dictionary.\<close>

fun write_results ::
  "string \<Rightarrow> 'id list \<Rightarrow> 'id scores \<Rightarrow> 'id results \<Rightarrow> error + 'id row list"
where
  "write_results run docids scores [] = Inr []"
| "write_results run docids scores ((query_id, result) # rest) =
     (case map_of scores query_id of
        None \<Rightarrow> Inl KeyError
      | Some score \<Rightarrow>
          (case write_rows run docids query_id score 0 result of
             Inl e \<Rightarrow> Inl e
           | Inr out \<Rightarrow>
               (case write_results run docids scores rest of
                  Inl e \<Rightarrow> Inl e
                | Inr outs \<Rightarrow> Inr (out @ outs))))"

subsection \<open>The specification's reference definitions\<close>

text \<open>
  The gated inner product as the specification writes it:
  \<open>score = sum_j candidate[j] * query[j] * [candidateArg[j] == queryArg[j]]\<close>.
\<close>

definition spec_gip_score :: "vec \<Rightarrow> argidx \<Rightarrow> vec \<Rightarrow> argidx \<Rightarrow> real" where
  "spec_gip_score q qa c ca =
     (\<Sum>j<length q. c ! j * q ! j * (if ca ! j = qa ! j then 1 else 0))"

text \<open>
  Brute-force exact scoring: every corpus item gets its gated sum over all dimensions.
\<close>

definition spec_exact_scores :: "vec \<Rightarrow> argidx \<Rightarrow> vec list \<Rightarrow> argidx list \<Rightarrow> real list" where
  "spec_exact_scores q qa cembs cargs =
     map (\<lambda>i. spec_gip_score q qa (cembs ! i) (cargs ! i)) [0..<length cembs]"

text \<open>
  The brute-force result of a run: for every query the \<open>k\<close> best corpus indices by exact
  score and those scores, stored under the query's id.
\<close>

definition spec_brute_force_run ::
  "nat \<Rightarrow> 'id list \<Rightarrow> (vec \<times> argidx) list \<Rightarrow> vec list \<Rightarrow> argidx list \<Rightarrow>
   'id results \<times> 'id scores"
where
  "spec_brute_force_run k qids queries cembs cargs =
     (zip qids
        (map (\<lambda>(q, qa). take k (argsort_desc (spec_exact_scores q qa cembs cargs))) queries),
      zip qids
        (map (\<lambda>(q, qa). select (spec_exact_scores q qa cembs cargs)
                           (take k (argsort_desc (spec_exact_scores q qa cembs cargs))))
           queries))"

text \<open>Lines 110-113: the argument ids as the query loop reads them.\<close>

definition padded_ids :: "args \<Rightarrow> vec list \<Rightarrow> argidx list \<Rightarrow> argidx list" where
  "padded_ids a query_embs m =
     (if width query_embs - emb_dim a > 0 then pad (width query_embs - emb_dim a) m else m)"

text \<open>
  A top \<open>k\<close> of the brute-force exact ranking restricted to a shortlist: \<open>k\<close> members of
  the shortlist (none more often than the shortlist holds it), listed with their exact
  scores, and these scores are the \<open>k\<close> largest exact scores of the shortlist, in
  descending order. Where exact scores are equal more than one candidate list is a top
  \<open>k\<close>; the score list is the same for all of them.
\<close>

definition spec_topk_of_shortlist ::
  "nat \<Rightarrow> real list \<Rightarrow> nat list \<Rightarrow> nat list \<times> real list \<Rightarrow> bool"
where
  "spec_topk_of_shortlist k exact shortlist r =
     (length (fst r) = k \<and> mset (fst r) \<subseteq># mset shortlist \<and>
      snd r = map (\<lambda>c. exact ! c) (fst r) \<and>
      snd r = take k (rev (sort (map (\<lambda>c. exact ! c) shortlist))))"

text \<open>
  The brute-force ranking of the shortlist, by descending exact score; it is one list
  when no two exact scores of the shortlist are equal.
\<close>

definition spec_ranking_of_shortlist :: "real list \<Rightarrow> nat list \<Rightarrow> nat list" where
  "spec_ranking_of_shortlist exact shortlist = rev (sort_key (\<lambda>c. exact ! c) shortlist)"

text \<open>
  Exactness of a reranked result: it is a top \<open>k\<close> of the brute-force ranking of the
  shortlist, and it is the first \<open>k\<close> of that ranking when no two exact scores of the
  shortlist are equal.
\<close>

definition exact_on_shortlist ::
  "nat \<Rightarrow> real list \<Rightarrow> nat list \<Rightarrow> nat list \<times> real list \<Rightarrow> bool"
where
  "exact_on_shortlist k exact shortlist r =
     (spec_topk_of_shortlist k exact shortlist r \<and>
      (distinct (map (\<lambda>c. exact ! c) shortlist) \<longrightarrow>
       fst r = take k (spec_ranking_of_shortlist exact shortlist)))"

text \<open>Scores that do not increase along the ranks.\<close>

definition nonincreasing :: "real list \<Rightarrow> bool" where
  "nonincreasing ys = sorted_wrt (\<lambda>x y. x \<ge> y) ys"

text \<open>
  A ranking for \<open>topk = k\<close>: at most \<open>k\<close> candidates, at most \<open>k\<close> scores, and the scores
  do not increase.
\<close>

definition ranked :: "nat \<Rightarrow> nat list \<times> real list \<Rightarrow> bool" where
  "ranked k r = (length (fst r) \<le> k \<and> length (snd r) \<le> k \<and> nonincreasing (snd r))"

text \<open>
  Sharding as the specification words it: with \<open>shard_size = n div tot\<close>, shard \<open>s\<close>
  before the last holds the index range \<open>[shard_size * s, shard_size * (s + 1))\<close> and the
  last shard holds \<open>[shard_size * (tot - 1), n)\<close>.
\<close>

definition shard_range :: "nat \<Rightarrow> nat \<Rightarrow> nat \<Rightarrow> nat \<times> nat" where
  "shard_range tot n s =
     ((n div tot) * s, if s = tot - 1 then n else (n div tot) * (s + 1))"

definition slice_of :: "'a list \<Rightarrow> nat \<times> nat \<Rightarrow> 'a list" where
  "slice_of xs r = map (\<lambda>i. xs ! i) [fst r..<snd r]"

definition snapshot_slice :: "'id snapshot \<Rightarrow> nat \<times> nat \<Rightarrow> 'id snapshot" where
  "snapshot_slice idx r =
     \<lparr>embs = slice_of (embs idx) r,
      arg_idxs = map_option (\<lambda>m. slice_of m r) (arg_idxs idx),
      ids = slice_of (ids idx) r\<rparr>"

text \<open>Concatenating shards in order: vectors, argument ids (when every shard has them)
  and identifiers.\<close>

definition snapshot_concat :: "'id snapshot list \<Rightarrow> 'id snapshot" where
  "snapshot_concat shards =
     \<lparr>embs = concat (map embs shards),
      arg_idxs =
        (if list_all (\<lambda>sh. arg_idxs sh \<noteq> None) shards
         then Some (concat (map (\<lambda>sh. case arg_idxs sh of Some m \<Rightarrow> m | None \<Rightarrow> []) shards))
         else None),
      ids = concat (map ids shards)\<rparr>"

section \<open>Properties\<close>

subsection \<open>Sorting and selection\<close>

lemma set_argsort_desc: "set (argsort_desc xs) = {..<length xs}"
  by (auto simp: argsort_desc_def)

lemma length_argsort_desc: "length (argsort_desc xs) = length xs"
  by (simp add: argsort_desc_def)

lemma distinct_argsort_desc: "distinct (argsort_desc xs)"
  by (simp add: argsort_desc_def)

lemma torch_topk_Inr:
  "torch_topk xs k = Inr idx \<longleftrightarrow> k \<le> length xs \<and> idx = take k (argsort_desc xs)"
  by (auto simp: torch_topk_def)

lemma torch_topk_length: "torch_topk xs k = Inr idx \<Longrightarrow> length idx = k"
  by (auto simp: torch_topk_Inr length_argsort_desc)

lemma torch_topk_range: "torch_topk xs k = Inr idx \<Longrightarrow> i \<in> set idx \<Longrightarrow> i < length xs"
  using set_argsort_desc[of xs] by (auto simp: torch_topk_Inr dest: in_set_takeD)

lemma select_map_upt:
  "\<forall>i\<in>set idx. i < n \<Longrightarrow> select (map f [0..<n]) idx = map f idx"
  by (simp add: select_def)

subsection \<open>The gated score\<close>

lemma dot_nth:
  "length c = length q \<Longrightarrow> dot c q = (\<Sum>j<length q. c ! j * q ! j)"
  by (simp add: dot_def sum_list_sum_nth atLeast0LessThan)

lemma gate_row_nth:
  "length ca = n \<Longrightarrow> length qa = n \<Longrightarrow> length c = n \<Longrightarrow> j < n \<Longrightarrow>
   gate_row ca qa c ! j = (if ca ! j = qa ! j then c ! j else 0)"
  by (simp add: gate_row_def)

lemma length_gate_row:
  "length ca = n \<Longrightarrow> length qa = n \<Longrightarrow> length c = n \<Longrightarrow> length (gate_row ca qa c) = n"
  by (simp add: gate_row_def)

lemma dot_gate_row:
  assumes "length ca = length q" "length qa = length q" "length c = length q"
  shows "dot (gate_row ca qa c) q = spec_gip_score q qa c ca"
proof -
  have "dot (gate_row ca qa c) q = (\<Sum>j<length q. gate_row ca qa c ! j * q ! j)"
    using assms by (simp add: dot_nth length_gate_row)
  also have "\<dots> = (\<Sum>j<length q. c ! j * q ! j * (if ca ! j = qa ! j then 1 else 0))"
    using assms by (intro sum.cong) (simp_all add: gate_row_nth)
  finally show ?thesis by (simp add: spec_gip_score_def)
qed

lemma gip_scores_spec:
  assumes "embs_ok q cembs" and "args_ok q qa cembs cargs"
  shows "gip_scores q qa cembs cargs =
         Inr (map (\<lambda>i. spec_gip_score q qa (cembs ! i) (cargs ! i)) [0..<length cembs])"
proof -
  have "einsum_ij_j (gate cargs qa cembs) q =
        map (\<lambda>i. spec_gip_score q qa (cembs ! i) (cargs ! i)) [0..<length cembs]"
  proof (rule nth_equalityI)
    show "length (einsum_ij_j (gate cargs qa cembs) q) =
          length (map (\<lambda>i. spec_gip_score q qa (cembs ! i) (cargs ! i)) [0..<length cembs])"
      using assms by (simp add: einsum_ij_j_def gate_def args_ok_def)
  next
    fix i assume "i < length (einsum_ij_j (gate cargs qa cembs) q)"
    with assms have i: "i < length cembs" "i < length cargs"
      by (simp_all add: einsum_ij_j_def gate_def args_ok_def)
    with assms have "length (cargs ! i) = length q" "length qa = length q"
        "length (cembs ! i) = length q"
      by (auto simp: embs_ok_def args_ok_def list_all_length)
    with i show "einsum_ij_j (gate cargs qa cembs) q ! i =
          map (\<lambda>i. spec_gip_score q qa (cembs ! i) (cargs ! i)) [0..<length cembs] ! i"
      by (simp add: einsum_ij_j_def gate_def dot_gate_row)
  qed
  with assms show ?thesis by (simp add: gip_scores_def)
qed

text \<open>
  C1. With \<open>theta = 0\<close>, every candidate \<open>i\<close> is scored by the gated sum
  \<open>sum_j candidates[i][j] * q[j] * [candidateArgs[i][j] == qa[j]]\<close>, and the ranking
  returned for the query is the top \<open>topk\<close> of exactly these scores. For query
  \<open>[1,2,3]\<close> with argument ids \<open>[0,0,1]\<close> against candidate \<open>[1,1,1]\<close> with argument ids
  \<open>[0,1,1]\<close> the score is 4.
\<close>

theorem exact_gip_score_theta0:
  assumes "theta a = 0" and "embs_ok q cembs" and "args_ok q qa cembs cargs"
  shows "gip_scores q qa cembs cargs =
           Inr (map (\<lambda>i. spec_gip_score q qa (cembs ! i) (cargs ! i)) [0..<length cembs]) \<and>
         GIP_query a q qa cembs cargs =
           (case torch_topk
                   (map (\<lambda>i. spec_gip_score q qa (cembs ! i) (cargs ! i)) [0..<length cembs])
                   (topk a) of
              Inl e \<Rightarrow> Inl e
            | Inr idx \<Rightarrow>
                Inr (idx, map (\<lambda>i. spec_gip_score q qa (cembs ! i) (cargs ! i)) idx))"
proof -
  let ?gs = "\<lambda>i. spec_gip_score q qa (cembs ! i) (cargs ! i)"
  have s: "gip_scores q qa cembs cargs = Inr (map ?gs [0..<length cembs])"
    using assms(2,3) by (rule gip_scores_spec)
  have "select (map ?gs [0..<length cembs]) idx = map ?gs idx"
    if "torch_topk (map ?gs [0..<length cembs]) (topk a) = Inr idx" for idx
    using torch_topk_range[OF that] by (intro select_map_upt) simp
  with s assms(1) show ?thesis
    by (simp add: GIP_query_def split: sum.splits)
qed

theorem exact_gip_score_theta0_witness:
  "gip_scores [1, 2, 3] [0, 0, 1] [[1, 1, 1]] [[0, 1, 1]] = Inr [4] \<and>
   GIP_query (default_args\<lparr>theta := 0, topk := 1\<rparr>) [1, 2, 3] [0, 0, 1] [[1, 1, 1]] [[0, 1, 1]]
     = Inr ([0], [4])"
proof -
  have h: "theta (default_args\<lparr>theta := 0, topk := 1\<rparr>) = 0"
      "embs_ok [1, 2, 3] [[1, 1, 1]]" "args_ok [1, 2, 3] [0, 0, 1] [[1, 1, 1]] [[0, 1, 1]]"
    by (simp_all add: embs_ok_def args_ok_def)
  have g: "spec_gip_score [1, 2, 3] [0, 0, 1] [1, 1, 1] [0, 1, 1] = 4"
    by (simp add: spec_gip_score_def lessThan_nat_numeral lessThan_Suc)
  show ?thesis
    using exact_gip_score_theta0 [OF h] g
    by (simp add: torch_topk_def argsort_desc_def)
qed


subsection \<open>Theta pruning\<close>

lemma num_idx_antimono: "th1 \<le> th2 \<Longrightarrow> num_idx th2 q \<le> num_idx th1 q"
  unfolding num_idx_def by (induction q) auto

lemma num_idx_card: "num_idx th q = card {j. j < length q \<and> q ! j > th}"
  by (simp add: num_idx_def length_filter_conv_card)

lemma GIP_query_theta0_cong:
  "theta a = 0 \<Longrightarrow> theta b = 0 \<Longrightarrow> topk a = topk b \<Longrightarrow>
   GIP_query a q qa cembs cargs = GIP_query b q qa cembs cargs"
  by (simp add: GIP_query_def split: sum.splits)

subsection \<open>The empty important-dimension set\<close>

lemma cols_Nil: "cols m [] = map (\<lambda>row. []) m"
  by (simp add: cols_def select_def)

lemma partial_scores_empty_set:
  assumes "num_idx (theta a) q = 0" and "\<not> IP a"
    and "embs_ok q cembs" and "args_ok q qa cembs cargs"
  shows "partial_scores a q qa cembs cargs = Inr (replicate (length cembs) 0)"
proof -
  have "einsum_ij_j (gate (map (\<lambda>row. []) cargs) [] (map (\<lambda>row. []) cembs)) [] =
        replicate (length cembs) 0"
    using assms(4)
    by (simp add: einsum_ij_j_def gate_def gate_row_def dot_def zip_map_map args_ok_def
          map_replicate_const)
  with assms show ?thesis
    by (simp add: partial_scores_def torch_topk_def gip_scores_def cols_Nil select_def
          embs_ok_def args_ok_def list_all_length)
qed


text \<open>
  C4, as the code has it. When no query entry exceeds \<open>theta\<close> (and \<open>theta\<close> is not 0), the
  pruned selector without the IP flag does not fall back to all dimensions: it scores
  over no dimension, so every candidate gets the partial score 0. Without rerank and
  with \<open>topk\<close> at most the corpus size the query completes without an error and returns
  \<open>topk\<close> candidates, each with score 0.
\<close>

theorem empty_important_set_scores_zero:
  assumes "theta a \<noteq> 0" and "num_idx (theta a) q = 0" and "\<not> IP a" and "\<not> rerank a"
    and "embs_ok q cembs" and "args_ok q qa cembs cargs" and "topk a \<le> length cembs"
  shows "partial_scores a q qa cembs cargs = Inr (replicate (length cembs) 0) \<and>
         (\<exists>cands. GIP_query a q qa cembs cargs = Inr (cands, replicate (topk a) 0) \<and>
                  length cands = topk a \<and> set cands \<subseteq> {..<length cembs})"
proof -
  let ?ps = "replicate (length cembs) (0::real)"
  let ?cands = "take (topk a) (argsort_desc ?ps)"
  have ps: "partial_scores a q qa cembs cargs = Inr ?ps"
    using assms(2,3,5,6) by (rule partial_scores_empty_set)
  have tk: "torch_topk ?ps (topk a) = Inr ?cands"
    using assms(7) by (simp add: torch_topk_def)
  have rng: "\<forall>i\<in>set ?cands. i < length cembs"
    using torch_topk_range [OF tk] by simp
  then have "select ?ps ?cands = replicate (length ?cands) 0"
    by (simp add: select_def map_replicate_const cong: map_cong)
  moreover have "length ?cands = topk a"
    using torch_topk_length [OF tk] .
  ultimately have "GIP_query a q qa cembs cargs = Inr (?cands, replicate (topk a) 0)"
    using assms(1,4) ps tk by (simp add: GIP_query_def)
  with ps rng \<open>length ?cands = topk a\<close> show ?thesis
    by (auto simp del: set_take_subset)
qed

theorem empty_important_set_scores_zero_witness:
  "partial_scores (default_args\<lparr>theta := 1, topk := 1\<rparr>) [1] [0] [[1]] [[0]]
     = Inr (replicate (length [[1::real]]) 0) \<and>
   (\<exists>cands. GIP_query (default_args\<lparr>theta := 1, topk := 1\<rparr>) [1] [0] [[1]] [[0]]
              = Inr (cands, replicate (topk (default_args\<lparr>theta := 1, topk := 1\<rparr>)) 0) \<and>
            length cands = topk (default_args\<lparr>theta := 1, topk := 1\<rparr>) \<and>
            set cands \<subseteq> {..<length [[1::real]]})"
proof -
  let ?a = "default_args\<lparr>theta := 1, topk := 1\<rparr>"
  have h: "theta ?a \<noteq> 0" "num_idx (theta ?a) [1] = 0" "\<not> IP ?a" "\<not> rerank ?a"
      "embs_ok [1] [[1]]" "args_ok [1] [0] [[1]] [[0]]" "topk ?a \<le> length [[1::real]]"
    by (simp_all add: default_args_def num_idx_def embs_ok_def args_ok_def)
  show ?thesis
    by (rule empty_important_set_scores_zero [OF h])
qed

text \<open>
  The claim as the specification states it fails: for the query \<open>[1]\<close> with \<open>theta = 1\<close>
  the important-dimension set is empty and the candidate \<open>[1]\<close> is scored 0, where the
  brute-force run scores it 1.
\<close>

theorem empty_important_set_counterexample:
  "num_idx 1 [1] = 0 \<and>
   GIP_query (default_args\<lparr>theta := 1, topk := 1\<rparr>) [1] [0] [[1]] [[0]] = Inr ([0], [0]) \<and>
   GIP_query (default_args\<lparr>theta := 0, topk := 1\<rparr>) [1] [0] [[1]] [[0]] = Inr ([0], [1])"
  by (simp add: num_idx_def GIP_query_def partial_scores_def default_args_def torch_topk_def
        argsort_desc_def gip_scores_def embs_ok_def args_ok_def einsum_ij_j_def gate_def
        gate_row_def dot_def select_def cols_def)

subsection \<open>A shortlist smaller than \<open>topk\<close>\<close>

lemma gip_scores_length: "gip_scores q qa cembs cargs = Inr s \<Longrightarrow> length s = length cembs"
  by (auto simp: gip_scores_def einsum_ij_j_def gate_def args_ok_def split: if_splits)

lemma GIP_rerank_short_raises:
  assumes "length candidates < k"
  shows "\<exists>e. GIP_rerank k q qa cembs cargs candidates = Inl e"
proof (cases "gip_scores q qa (select cembs candidates) (select cargs candidates)")
  case (Inl e)
  then show ?thesis by (simp add: GIP_rerank_def)
next
  case (Inr s)
  from gip_scores_length [OF this] have "length s = length candidates"
    by (simp add: select_def)
  with assms Inr show ?thesis
    by (simp add: GIP_rerank_def torch_topk_def)
qed

lemma rerank_small_shortlist_always_raises:
  assumes "theta a \<noteq> 0" and "rerank a" and "agip_topk a < topk a"
  shows "\<exists>e. GIP_query a q qa cembs cargs = Inl e"
proof (cases "partial_scores a q qa cembs cargs")
  case (Inl e)
  with assms show ?thesis by (simp add: GIP_query_def)
next
  case ps: (Inr ps)
  show ?thesis
  proof (cases "torch_topk ps (agip_topk a)")
    case (Inl e)
    with assms ps show ?thesis by (simp add: GIP_query_def)
  next
    case (Inr candidates)
    from torch_topk_length [OF this] assms(3) have "length candidates < topk a" by simp
    from GIP_rerank_short_raises [OF this] assms(1,2) ps Inr show ?thesis
      by (simp add: GIP_query_def)
  qed
qed

text \<open>
  C5, at a concrete input. With rerank on, \<open>agip_topk = 1\<close> and \<open>topk = 2\<close> on a corpus
  of two items, both rerank paths raise the error of \<^verbatim>\<open>torch.topk\<close> instead of
  returning the one shortlisted candidate; the sibling path without rerank (lines
  220-221) truncates silently.
\<close>

theorem rerank_small_shortlist_raises:
  "GIP_query (default_args\<lparr>theta := 1, rerank := True, agip_topk := 1, topk := 2\<rparr>)
     [2] [0] [[1], [2]] [[0], [0]] = Inl TopkOutOfRange \<and>
   PQ_query (default_args\<lparr>rerank := True, agip_topk := 1, topk := 2\<rparr>)
     [2] [0] [[1], [2]] [[0], [0]] ([4], [1]) = Inl TopkOutOfRange \<and>
   PQ_query (default_args\<lparr>rerank := False, agip_topk := 1, topk := 2\<rparr>)
     [2] [0] [[1], [2]] [[0], [0]] ([4], [1]) = Inr ([1], [4])"
  by (simp add: num_idx_def GIP_query_def PQ_query_def GIP_rerank_def partial_scores_def
        default_args_def torch_topk_def argsort_desc_def gip_scores_def embs_ok_def
        args_ok_def einsum_ij_j_def gate_def gate_row_def dot_def select_def cols_def)

subsection \<open>Length and order of a ranking\<close>

lemma nonincreasing_select_argsort:
  "nonincreasing (select xs (take k (argsort_desc xs)))"
proof -
  have "sorted (map (\<lambda>i. - (xs ! i)) (argsort_desc xs))"
    unfolding argsort_desc_def by (rule sorted_sort_key)
  then have "sorted_wrt (\<lambda>i j. xs ! i \<ge> xs ! j) (argsort_desc xs)"
    by (simp add: sorted_wrt_map)
  then have "sorted_wrt (\<lambda>i j. xs ! i \<ge> xs ! j) (take k (argsort_desc xs))"
    by (rule sorted_wrt_take)
  then show ?thesis
    by (simp add: nonincreasing_def select_def sorted_wrt_map)
qed

lemma length_select: "length (select xs idx) = length idx"
  by (simp add: select_def)

lemma nonincreasing_take: "nonincreasing ys \<Longrightarrow> nonincreasing (take k ys)"
  by (simp add: nonincreasing_def)

lemma torch_topk_ranked:
  "torch_topk xs k = Inr idx \<Longrightarrow> ranked k (f idx, select xs idx)"
  if "\<And>idx. length (f idx) = length idx"
  using that
  by (auto simp: torch_topk_Inr ranked_def nonincreasing_select_argsort length_select)

lemma GIP_rerank_ranked:
  "GIP_rerank k q qa cembs cargs candidates = Inr r \<Longrightarrow> ranked k r"
  by (auto simp: GIP_rerank_def length_select split: if_splits sum.splits
      dest!: torch_topk_ranked [where f = "select candidates", rotated])

lemma GIP_query_ranked:
  "GIP_query a q qa cembs cargs = Inr r \<Longrightarrow> ranked (topk a) r"
  by (auto simp: GIP_query_def split: if_splits sum.splits
      dest: GIP_rerank_ranked
      dest!: torch_topk_ranked [where f = "\<lambda>idx. idx", rotated])

lemma IP_query_ranked:
  "IP_query a q cembs = Inr r \<Longrightarrow> ranked (topk a) r"
  by (auto simp: IP_query_def Let_def ranked_def nonincreasing_select_argsort length_select
      split: sum.splits)

lemma set_update_subset: "set (AList.update k v al) \<subseteq> insert (k, v) (set al)"
  by (induction al) auto

lemma retrieval_loop_ranked:
  assumes "retrieval_loop body qids i xs acc = Inr (results, scores)"
    and "\<And>x r. x \<in> set xs \<Longrightarrow> body x = Inr r \<Longrightarrow> ranked k r"
    and "\<forall>(qid, c)\<in>set (fst acc). length c \<le> k"
    and "\<forall>(qid, s)\<in>set (snd acc). length s \<le> k \<and> nonincreasing s"
  shows "(\<forall>(qid, c)\<in>set results. length c \<le> k) \<and>
         (\<forall>(qid, s)\<in>set scores. length s \<le> k \<and> nonincreasing s)"
  using assms
proof (induction xs arbitrary: i acc)
  case Nil
  then show ?case by auto
next
  case (Cons x xs)
  from Cons.prems(1) obtain c s where b: "body x = Inr (c, s)" and i: "i < length qids"
    and rest: "retrieval_loop body qids (Suc i) xs
                 (AList.update (qids ! i) c (fst acc), AList.update (qids ! i) s (snd acc))
               = Inr (results, scores)"
    by (auto split: sum.splits prod.splits if_splits)
  from Cons.prems(2) [OF _ b] have r: "length c \<le> k" "length s \<le> k" "nonincreasing s"
    by (simp_all add: ranked_def)
  show ?case
  proof (rule Cons.IH [OF rest])
    show "\<And>x r. x \<in> set xs \<Longrightarrow> body x = Inr r \<Longrightarrow> ranked k r"
      by (rule Cons.prems(2)) simp_all
    show "\<forall>(qid, c)\<in>set (fst (AList.update (qids ! i) c (fst acc),
                                AList.update (qids ! i) s (snd acc))). length c \<le> k"
      using Cons.prems(3) r set_update_subset [of "qids ! i" c "fst acc"] by auto
    show "\<forall>(qid, s)\<in>set (snd (AList.update (qids ! i) c (fst acc),
                                AList.update (qids ! i) s (snd acc))).
            length s \<le> k \<and> nonincreasing s"
      using Cons.prems(4) r set_update_subset [of "qids ! i" s "snd acc"] by auto
  qed
qed

subsection \<open>Sharding\<close>

lemma slice_of_take_drop:
  "hi \<le> length xs \<Longrightarrow> slice_of xs (lo, hi) = take (hi - lo) (drop lo xs)"
  by (rule nth_equalityI) (auto simp: slice_of_def)

lemma shard_bound:
  assumes "1 \<le> (tot::nat)" and "s < tot - 1"
  shows "(n div tot) * (s + 1) \<le> n"
proof -
  from assms have "s + 1 \<le> tot" by linarith
  then have "(n div tot) * (s + 1) \<le> (n div tot) * tot" by (rule mult_le_mono2)
  also have "\<dots> \<le> n" by simp
  finally show ?thesis .
qed

lemma shrad_slice_range:
  assumes "1 \<le> tot" and "s < tot"
  shows "shrad_slice tot s (length xs div tot) xs = slice_of xs (shard_range tot (length xs) s)"
proof (cases "s = tot - 1")
  case True
  then show ?thesis
    by (simp add: shrad_slice_def shard_range_def slice_of_take_drop)
next
  case False
  with assms have "s < tot - 1" by simp
  from shard_bound [OF assms(1) this, of "length xs"] False show ?thesis
    by (simp add: shrad_slice_def shard_range_def slice_of_take_drop)
qed

lemma concat_chunks:
  "concat (map (\<lambda>s. take per (drop (per * s) xs)) [0..<k]) = take (per * k) xs"
proof (induction k)
  case 0
  then show ?case by simp
next
  case (Suc k)
  have "take (per * k + per) xs = take (per * k) xs @ take per (drop (per * k) xs)"
    by (rule take_add)
  moreover have "per * Suc k = per * k + per"
    by simp
  ultimately have "take (per * Suc k) xs = take (per * k) xs @ take per (drop (per * k) xs)"
    by (simp only:)
  with Suc show ?case by simp
qed

lemma concat_shrad_slices:
  assumes "1 \<le> (tot::nat)"
  shows "concat (map (\<lambda>s. shrad_slice tot s per xs) [0..<tot]) = xs"
proof -
  from assms have upt: "[0..<tot] = [0..<tot - 1] @ [tot - 1]"
    by (metis Suc_diff_1 less_eq_Suc_le upt_Suc_append zero_le One_nat_def)
  have "map (\<lambda>s. shrad_slice tot s per xs) [0..<tot - 1] =
        map (\<lambda>s. take per (drop (per * s) xs)) [0..<tot - 1]"
    by (rule map_cong) (auto simp: shrad_slice_def)
  then have "concat (map (\<lambda>s. shrad_slice tot s per xs) [0..<tot - 1]) =
             take (per * (tot - 1)) xs"
    by (simp only: concat_chunks)
  moreover have "shrad_slice tot (tot - 1) per xs = drop (per * (tot - 1)) xs"
    by (simp add: shrad_slice_def)
  ultimately show ?thesis
    by (subst upt) simp
qed


lemma concat_slices:
  assumes "1 \<le> (tot::nat)"
  shows "concat (map (\<lambda>s. slice_of xs (shard_range tot (length xs) s)) [0..<tot]) = xs"
proof -
  have "map (\<lambda>s. slice_of xs (shard_range tot (length xs) s)) [0..<tot] =
        map (\<lambda>s. shrad_slice tot s (length xs div tot) xs) [0..<tot]"
    using assms by (intro map_cong refl) (simp add: shrad_slice_range)
  then show ?thesis
    by (simp only: concat_shrad_slices [OF assms(1)])
qed

lemma load_index_slice:
  assumes "1 \<le> tot" and "s < tot" and "length (embs idx) = length (ids idx)"
    and "\<forall>m. arg_idxs idx = Some m \<longrightarrow> length m = length (ids idx)"
  shows "load_index tot s idx =
         Inr (snapshot_slice idx (shard_range tot (length (ids idx)) s))"
proof -
  let ?n = "length (ids idx)"
  have i: "shrad_slice tot s (?n div tot) (ids idx) = slice_of (ids idx) (shard_range tot ?n s)"
    using shrad_slice_range [OF assms(1,2), of "ids idx"] by simp
  have e: "shrad_slice tot s (?n div tot) (embs idx) = slice_of (embs idx) (shard_range tot ?n s)"
    using shrad_slice_range [OF assms(1,2), of "embs idx"] assms(3) by simp
  have a: "shrad_slice tot s (?n div tot) m = slice_of m (shard_range tot ?n s)"
    if "arg_idxs idx = Some m" for m
    using shrad_slice_range [OF assms(1,2), of m] assms(4) that by simp
  from assms(1) i e a show ?thesis
    by (cases "arg_idxs idx") (simp_all add: load_index_def snapshot_slice_def Let_def)
qed

text \<open>
  C7. For \<open>tot \<ge> 1\<close> shards of a corpus of \<open>n\<close> items whose three arrays have one
  length, the code gives shard \<open>s < tot\<close> exactly the index range of the specification:
  \<open>[shard_size * s, shard_size * (s + 1))\<close> before the last shard and
  \<open>[shard_size * (tot - 1), n)\<close> for the last. The ranges start at 0, end at \<open>n\<close> and
  each begins where the one before ends, and the shards concatenated in order give back
  the corpus: vectors, argument ids and document ids.
\<close>

theorem sharding_complete:
  assumes "1 \<le> tot" and "length (embs idx) = length (ids idx)"
    and "\<forall>m. arg_idxs idx = Some m \<longrightarrow> length m = length (ids idx)"
  shows "(\<forall>s<tot. load_index tot s idx =
                   Inr (snapshot_slice idx (shard_range tot (length (ids idx)) s))) \<and>
         fst (shard_range tot (length (ids idx)) 0) = 0 \<and>
         snd (shard_range tot (length (ids idx)) (tot - 1)) = length (ids idx) \<and>
         (\<forall>s<tot - 1. snd (shard_range tot (length (ids idx)) s) =
                       fst (shard_range tot (length (ids idx)) (Suc s))) \<and>
         snapshot_concat
           (map (\<lambda>s. snapshot_slice idx (shard_range tot (length (ids idx)) s)) [0..<tot])
         = idx"
proof -
  let ?n = "length (ids idx)"
  let ?shards = "map (\<lambda>s. snapshot_slice idx (shard_range tot ?n s)) [0..<tot]"
  have slices: "\<forall>s<tot. load_index tot s idx = Inr (snapshot_slice idx (shard_range tot ?n s))"
    using assms by (simp add: load_index_slice)
  have ranges: "fst (shard_range tot ?n 0) = 0" "snd (shard_range tot ?n (tot - 1)) = ?n"
      "\<forall>s<tot - 1. snd (shard_range tot ?n s) = fst (shard_range tot ?n (Suc s))"
    by (simp_all add: shard_range_def)
  have e: "concat (map embs ?shards) = embs idx"
    using concat_slices [OF assms(1), of "embs idx"] assms(2)
    by (simp add: snapshot_slice_def comp_def)
  have i: "concat (map ids ?shards) = ids idx"
    using concat_slices [OF assms(1), of "ids idx"]
    by (simp add: snapshot_slice_def comp_def)
  from assms(1) have ne: "[0..<tot] \<noteq> []" by simp
  have a: "(if list_all (\<lambda>sh. arg_idxs sh \<noteq> None) ?shards
            then Some (concat (map (\<lambda>sh. case arg_idxs sh of Some m \<Rightarrow> m | None \<Rightarrow> []) ?shards))
            else None) = arg_idxs idx"
  proof (cases "arg_idxs idx")
    case None
    with ne show ?thesis
      by (cases "[0..<tot]") (simp_all add: snapshot_slice_def)
  next
    case (Some m)
    with assms(3) have "length m = ?n" by simp
    from concat_slices [OF assms(1), of m] this Some show ?thesis
      by (simp add: snapshot_slice_def comp_def list_all_iff)
  qed
  have "snapshot_concat ?shards = idx"
    unfolding snapshot_concat_def using e i a by (cases idx) simp
  with slices ranges show ?thesis
    by blast
qed


theorem sharding_complete_witness:
  "load_index 2 0
     \<lparr>embs = [[1], [2], [3], [4], [5]], arg_idxs = Some [[6], [7], [8], [9], [10]],
      ids = [11, 12, 13, 14, 15 :: nat]\<rparr>
   = Inr \<lparr>embs = [[1], [2]], arg_idxs = Some [[6], [7]], ids = [11, 12]\<rparr> \<and>
   load_index 2 1
     \<lparr>embs = [[1], [2], [3], [4], [5]], arg_idxs = Some [[6], [7], [8], [9], [10]],
      ids = [11, 12, 13, 14, 15 :: nat]\<rparr>
   = Inr \<lparr>embs = [[3], [4], [5]], arg_idxs = Some [[8], [9], [10]], ids = [13, 14, 15]\<rparr> \<and>
   snapshot_concat
     [\<lparr>embs = [[1], [2]], arg_idxs = Some [[6], [7]], ids = [11, 12]\<rparr>,
      \<lparr>embs = [[3], [4], [5]], arg_idxs = Some [[8], [9], [10]], ids = [13, 14, 15]\<rparr>]
   = \<lparr>embs = [[1], [2], [3], [4], [5]], arg_idxs = Some [[6], [7], [8], [9], [10]],
      ids = [11, 12, 13, 14, 15 :: nat]\<rparr>"
proof -
  let ?I = "\<lparr>embs = [[1], [2], [3], [4], [5]], arg_idxs = Some [[6], [7], [8], [9], [10]],
             ids = [11, 12, 13, 14, 15 :: nat]\<rparr>"
  have h: "1 \<le> (2::nat)" "length (embs ?I) = length (ids ?I)"
      "\<forall>m. arg_idxs ?I = Some m \<longrightarrow> length m = length (ids ?I)"
    by auto
  note t = sharding_complete [OF h]
  have u: "[0..<2] = [0, 1 :: nat]"
    by (simp add: upt_rec)
  have s0: "snapshot_slice ?I (shard_range 2 (length (ids ?I)) 0)
           = \<lparr>embs = [[1], [2]], arg_idxs = Some [[6], [7]], ids = [11, 12]\<rparr>"
    by (simp add: shard_range_def snapshot_slice_def slice_of_def u)
  have s1: "snapshot_slice ?I (shard_range 2 (length (ids ?I)) 1)
           = \<lparr>embs = [[3], [4], [5]], arg_idxs = Some [[8], [9], [10]], ids = [13, 14, 15]\<rparr>"
    by (simp add: shard_range_def snapshot_slice_def slice_of_def)
  have l0: "load_index 2 0 ?I = Inr (snapshot_slice ?I (shard_range 2 (length (ids ?I)) 0))"
    by (rule t [THEN conjunct1, rule_format]) simp
  have l1: "load_index 2 1 ?I = Inr (snapshot_slice ?I (shard_range 2 (length (ids ?I)) 1))"
    by (rule t [THEN conjunct1, rule_format]) simp
  have c: "snapshot_concat
     [\<lparr>embs = [[1], [2]], arg_idxs = Some [[6], [7]], ids = [11, 12]\<rparr>,
      \<lparr>embs = [[3], [4], [5]], arg_idxs = Some [[8], [9], [10]], ids = [13, 14, 15]\<rparr>] = ?I"
    by (simp add: snapshot_concat_def)
  show ?thesis
    by (simp only: l0 l1 s0 s1 c)
qed

subsection \<open>The output rows\<close>

lemma upt_Suc_shift: "[0..<Suc n] = 0 # map Suc [0..<n]"
  by (simp add: upt_conv_Cons map_Suc_upt del: upt_Suc)

lemma write_rows_eq:
  assumes "list_all (\<lambda>d. d < length docids) result"
    and "rank0 + length result \<le> length score"
  shows "write_rows run docids query_id score rank0 result =
         Inr (map (\<lambda>r. (query_id, docids ! (result ! r), rank0 + r + 1, score ! (rank0 + r), run))
                (filter (\<lambda>r. docids ! (result ! r) \<noteq> query_id) [0..<length result]))"
  using assms
proof (induction result arbitrary: rank0)
  case Nil
  then show ?case by simp
next
  case (Cons d ds)
  from Cons.prems have "list_all (\<lambda>d. d < length docids) ds"
    and "Suc rank0 + length ds \<le> length score"
    by simp_all
  from Cons.IH [OF this] Cons.prems show ?case
    by (simp add: upt_Suc_shift filter_map comp_def Let_def del: upt_Suc)
qed

lemma write_rows_no_self:
  "write_rows run docids query_id score rank0 result = Inr out \<Longrightarrow>
   \<forall>row\<in>set out. fst row = query_id \<and> fst (snd row) \<noteq> query_id"
proof (induction result arbitrary: rank0 out)
  case Nil
  then show ?case by simp
next
  case (Cons d ds)
  then show ?case
    by (fastforce simp: Let_def split: if_splits sum.splits)
qed

lemma write_results_no_self:
  "write_results run docids scores results = Inr out \<Longrightarrow>
   \<forall>row\<in>set out. fst (snd row) \<noteq> fst row"
proof (induction results arbitrary: out)
  case Nil
  then show ?case by simp
next
  case (Cons p results)
  obtain query_id result where p: "p = (query_id, result)" by (cases p)
  from Cons.prems p obtain score o1 o2 where
    "write_rows run docids query_id score 0 result = Inr o1"
    "write_results run docids scores results = Inr o2" "out = o1 @ o2"
    by (auto split: option.splits sum.splits)
  with Cons.IH [of o2] write_rows_no_self [of run docids query_id score 0 result o1]
  show ?case by auto
qed

text \<open>
  C8. The rows written for a query are the ranked rows whose document id differs from
  the query id, in rank order, and each keeps the rank of its position in the ranking
  (position + 1): the filter acts when the rows are written, so the ranks of the
  remaining rows skip the self-hit and are not renumbered. No written row, of this
  query or of the whole file, has a document id equal to its query id.
\<close>

theorem self_hit_filtered_at_write:
  assumes "list_all (\<lambda>d. d < length docids) result" and "length result \<le> length score"
  shows "write_rows run docids query_id score 0 result =
           Inr (map (\<lambda>r. (query_id, docids ! (result ! r), r + 1, score ! r, run))
                  (filter (\<lambda>r. docids ! (result ! r) \<noteq> query_id) [0..<length result])) \<and>
         (\<forall>out. write_rows run docids query_id score 0 result = Inr out \<longrightarrow>
                (\<forall>row\<in>set out. fst (snd row) \<noteq> query_id)) \<and>
         (\<forall>out. write_results run docids scores results = Inr out \<longrightarrow>
                (\<forall>row\<in>set out. fst (snd row) \<noteq> fst row))"
proof -
  have "write_rows run docids query_id score 0 result =
           Inr (map (\<lambda>r. (query_id, docids ! (result ! r), r + 1, score ! r, run))
                  (filter (\<lambda>r. docids ! (result ! r) \<noteq> query_id) [0..<length result]))"
    using write_rows_eq [OF assms(1), of 0 score run query_id] assms(2) by simp
  then show ?thesis
    using write_rows_no_self [of run docids query_id score 0 result]
      write_results_no_self [of run docids scores results]
    by blast
qed

theorem self_hit_filtered_at_write_witness:
  "write_rows ''h2oloo'' [''d1'', ''q'', ''d2''] ''q'' [9, 8, 7] 0 [0, 1, 2] =
     Inr [(''q'', ''d1'', 1, 9, ''h2oloo''), (''q'', ''d2'', 3, 7, ''h2oloo'')]"
proof -
  have h: "list_all (\<lambda>d. d < length [''d1'', ''q'', ''d2'']) [0, 1, 2]"
      "length [0, 1, 2 :: nat] \<le> length [9, 8, 7 :: real]"
    by simp_all
  have u: "[0..<3] = [0, 1, 2 :: nat]"
    by (simp add: upt_rec)
  from self_hit_filtered_at_write [OF h, THEN conjunct1, of "''h2oloo''" "''q''"]
  show ?thesis
    by (simp add: u)
qed

subsection \<open>Padding dimensions\<close>

lemma sum_lessThan_split:
  fixes f :: "nat \<Rightarrow> real"
  shows "(\<Sum>j<n + m. f j) = (\<Sum>j<n. f j) + (\<Sum>j<m. f (n + j))"
  by (induction m) (simp_all add: add.assoc [symmetric])

lemma pad_nth: "i < length m \<Longrightarrow> pad cls_dim m ! i = m ! i @ replicate cls_dim 1"
  by (simp add: pad_def)

lemma spec_gip_score_padded:
  assumes "length qa = n" and "length ca = n"
    and "length c = n + cls_dim" and "length q = n + cls_dim"
  shows "spec_gip_score q (qa @ replicate cls_dim 1) c (ca @ replicate cls_dim 1) =
         spec_gip_score (take n q) qa (take n c) ca + dot (drop n c) (drop n q)"
proof -
  let ?t = "\<lambda>j. c ! j * q ! j *
      (if (ca @ replicate cls_dim 1) ! j = (qa @ replicate cls_dim 1) ! j then 1 else 0)"
  have "spec_gip_score q (qa @ replicate cls_dim 1) c (ca @ replicate cls_dim 1) =
        (\<Sum>j<n. ?t j) + (\<Sum>j<cls_dim. ?t (n + j))"
    using assms(4) by (simp add: spec_gip_score_def sum_lessThan_split)
  moreover have "(\<Sum>j<n. ?t j) = spec_gip_score (take n q) qa (take n c) ca"
    using assms by (simp add: spec_gip_score_def nth_append)
  moreover have "(\<Sum>j<cls_dim. ?t (n + j)) = (\<Sum>j<cls_dim. drop n c ! j * drop n q ! j)"
    using assms by (intro sum.cong refl) (simp add: nth_append)
  moreover have "dot (drop n c) (drop n q) = (\<Sum>j<cls_dim. drop n c ! j * drop n q ! j)"
    using assms dot_nth [of "drop n c" "drop n q"] by simp
  ultimately show ?thesis by simp
qed

text \<open>
  C9, as the code has it. Every padding dimension carries the sentinel argument id 1 on
  the query side and on the corpus side alike, so a padded dimension always satisfies
  the gating condition and the candidate's entry there passes the gate unchanged: the
  gated score is the gated score of the first \<open>n\<close> dimensions plus the plain inner
  product of the appended ones.
\<close>

theorem padding_dims_always_match:
  assumes "i < length cargs" and "k < length qargs"
    and "length (cargs ! i) = n" and "length (qargs ! k) = n"
    and "length c = n + cls_dim" and "length q = n + cls_dim"
  shows "(\<forall>j. n \<le> j \<and> j < n + cls_dim \<longrightarrow>
            pad cls_dim cargs ! i ! j = 1 \<and> pad cls_dim qargs ! k ! j = 1 \<and>
            gate_row (pad cls_dim cargs ! i) (pad cls_dim qargs ! k) c ! j = c ! j) \<and>
         spec_gip_score q (pad cls_dim qargs ! k) c (pad cls_dim cargs ! i) =
           spec_gip_score (take n q) (qargs ! k) (take n c) (cargs ! i) +
           dot (drop n c) (drop n q)"
proof (intro conjI allI impI)
  fix j assume j: "n \<le> j \<and> j < n + cls_dim"
  then have jn: "j - n < cls_dim" "\<not> j < n"
    by auto
  with assms show c1: "pad cls_dim cargs ! i ! j = 1"
    by (simp add: pad_nth nth_append)
  from jn assms show q1: "pad cls_dim qargs ! k ! j = 1"
    by (simp add: pad_nth nth_append)
  from assms have "length (pad cls_dim cargs ! i) = n + cls_dim"
      "length (pad cls_dim qargs ! k) = n + cls_dim"
    by (simp_all add: pad_nth)
  with j assms(5) c1 q1 show "gate_row (pad cls_dim cargs ! i) (pad cls_dim qargs ! k) c ! j = c ! j"
    by (simp add: gate_row_nth)
next
  from assms show "spec_gip_score q (pad cls_dim qargs ! k) c (pad cls_dim cargs ! i) =
      spec_gip_score (take n q) (qargs ! k) (take n c) (cargs ! i) + dot (drop n c) (drop n q)"
    by (simp add: pad_nth spec_gip_score_padded)
qed

theorem padding_dims_always_match_witness:
  "pad 1 [[7]] ! 0 ! 1 = 1 \<and> pad 1 [[5]] ! 0 ! 1 = 1 \<and>
   gate_row (pad 1 [[7]] ! 0) (pad 1 [[5]] ! 0) [1, 1] ! 1 = [1, 1] ! 1 \<and>
   spec_gip_score [1, 1] (pad 1 [[5]] ! 0) [1, 1] (pad 1 [[7]] ! 0) =
     spec_gip_score (take 1 [1, 1]) ([[5]] ! 0) (take 1 [1, 1]) ([[7]] ! 0) +
     dot (drop 1 [1, 1]) (drop 1 [1, 1])"
proof -
  have h: "0 < length [[7 :: int]]" "0 < length [[5 :: int]]"
      "length ([[7 :: int]] ! 0) = 1" "length ([[5 :: int]] ! 0) = 1"
      "length [1, 1 :: real] = 1 + 1" "length [1, 1 :: real] = 1 + 1"
    by simp_all
  have j: "(1::nat) \<le> 1 \<and> (1::nat) < 1 + 1"
    by simp
  note t = padding_dims_always_match [OF h]
  from t [THEN conjunct1, rule_format, OF j] t [THEN conjunct2] show ?thesis
    by blast
qed

text \<open>
  The claim as the specification states it fails: with one lexical and one appended
  dimension, query ids \<open>[5]\<close> and corpus ids \<open>[7]\<close> disagree, both are padded with 1, the
  padded dimension passes the gate and the score is 1, not 0.
\<close>

theorem padding_never_matches_counterexample:
  "pad 1 [[5]] = [[5, 1]] \<and> pad 1 [[7]] = [[7, 1]] \<and>
   gate_row [7, 1] [5, 1] [1, 1] = [0, 1] \<and>
   GIP_retrieval [''q''] [[1, 1]] [[5]] [[1, 1]] [[7]]
     (default_args\<lparr>emb_dim := 1, theta := 0, topk := 1\<rparr>)
   = Inr ([(''q'', [0])], [(''q'', [1])])"
  by (simp add: pad_def GIP_retrieval_def width_def default_args_def GIP_query_def
        gip_scores_def embs_ok_def args_ok_def einsum_ij_j_def gate_def gate_row_def
        dot_def torch_topk_def argsort_desc_def select_def)

subsection \<open>The fallback to plain inner product\<close>

lemma update_fresh: "k \<notin> fst ` set al \<Longrightarrow> AList.update k v al = al @ [(k, v)]"
  by (induction al) auto

lemma retrieval_loop_distinct:
  assumes "\<forall>x\<in>set xs. body x = Inr (f x, g x)"
    and "i + length xs \<le> length qids" and "distinct qids"
    and "fst ` set rs \<subseteq> set (take i qids)" and "fst ` set ss \<subseteq> set (take i qids)"
  shows "retrieval_loop body qids i xs (rs, ss) =
         Inr (rs @ zip (take (length xs) (drop i qids)) (map f xs),
              ss @ zip (take (length xs) (drop i qids)) (map g xs))"
  using assms
proof (induction xs arbitrary: i rs ss)
  case Nil
  then show ?case by simp
next
  case (Cons x xs)
  from Cons.prems(2) have i: "i < length qids" by simp
  with Cons.prems(3) have "qids ! i \<notin> set (take i qids)"
    by (metis append_take_drop_id distinct_append Cons_nth_drop_Suc disjoint_iff list.set_intros(1))
  with Cons.prems(4,5) have fresh: "qids ! i \<notin> fst ` set rs" "qids ! i \<notin> fst ` set ss"
    by auto
  have keys: "fst ` set (rs @ [(qids ! i, f x)]) \<subseteq> set (take (Suc i) qids)"
      "fst ` set (ss @ [(qids ! i, g x)]) \<subseteq> set (take (Suc i) qids)"
    using Cons.prems(4,5) i by (auto simp: take_Suc_conv_app_nth)
  have "retrieval_loop body qids (Suc i) xs (rs @ [(qids ! i, f x)], ss @ [(qids ! i, g x)]) =
        Inr ((rs @ [(qids ! i, f x)]) @ zip (take (length xs) (drop (Suc i) qids)) (map f xs),
             (ss @ [(qids ! i, g x)]) @ zip (take (length xs) (drop (Suc i) qids)) (map g xs))"
    using Cons.prems(1,2,3) keys by (intro Cons.IH) simp_all
  moreover have "drop i qids = qids ! i # drop (Suc i) qids"
    using i by (simp add: Cons_nth_drop_Suc)
  ultimately show ?case
    using Cons.prems(1) i fresh by (simp add: update_fresh)
qed

lemma IP_query_ok:
  "embs_ok q cembs \<Longrightarrow>
   IP_query a q cembs =
     Inr (take (topk a) (argsort_desc (map (\<lambda>c. dot c q) cembs)),
          select (map (\<lambda>c. dot c q) cembs)
            (take (topk a) (argsort_desc (map (\<lambda>c. dot c q) cembs))))"
  by (simp add: IP_query_def ip_scores_def einsum_ij_j_def Let_def)

lemma IP_retrieval_distinct:
  assumes "query_embs \<noteq> []" and "length query_embs \<le> length qids" and "distinct qids"
    and "\<forall>q\<in>set query_embs. embs_ok q corpus_embs"
  shows "IP_retrieval qids query_embs corpus_embs a =
         Inr (zip (take (length query_embs) qids)
                (map (\<lambda>q. take (topk a) (argsort_desc (map (\<lambda>c. dot c q) corpus_embs)))
                   query_embs),
              zip (take (length query_embs) qids)
                (map (\<lambda>q. select (map (\<lambda>c. dot c q) corpus_embs)
                            (take (topk a) (argsort_desc (map (\<lambda>c. dot c q) corpus_embs))))
                   query_embs))"
proof -
  have "retrieval_loop (\<lambda>q. IP_query a q corpus_embs) qids 0 query_embs ([], []) =
        Inr ([] @ zip (take (length query_embs) (drop 0 qids))
                (map (\<lambda>q. take (topk a) (argsort_desc (map (\<lambda>c. dot c q) corpus_embs)))
                   query_embs),
             [] @ zip (take (length query_embs) (drop 0 qids))
                (map (\<lambda>q. select (map (\<lambda>c. dot c q) corpus_embs)
                            (take (topk a) (argsort_desc (map (\<lambda>c. dot c q) corpus_embs))))
                   query_embs))"
    using assms by (intro retrieval_loop_distinct) (simp_all add: IP_query_ok)
  with assms(1) show ?thesis
    by (simp add: IP_retrieval_def)
qed

lemma scale_cls_shape:
  "length (scale_cls a m) = length m"
  "i < length m \<Longrightarrow> length (scale_cls a m ! i) = length (m ! i)"
  by (simp_all add: scale_cls_def Let_def)

lemma set_shrad_slice: "set (shrad_slice tot s per xs) \<subseteq> set xs"
  by (auto simp: shrad_slice_def dest: in_set_takeD in_set_dropD)


lemma map_of_zip_take_nth:
  assumes "i < n" and "n \<le> length ks" and "distinct ks" and "length vs = n"
  shows "map_of (zip (take n ks) vs) (ks ! i) = Some (vs ! i)"
proof -
  from assms have "map_of (zip (take n ks) vs) (take n ks ! i) = Some (vs ! i)"
    by (intro map_of_zip_nth) simp_all
  with assms(1) show ?thesis by simp
qed

lemma main_retrieve_no_query_arg_idx:
  assumes "arg_idxs queries = None" and "1 \<le> total_shrad a"
  shows "main_retrieve faiss_search a queries index =
         IP_retrieval (ids queries) (scale_cls a (embs queries))
           (shrad_slice (total_shrad a) (shrad a) (length (ids index) div total_shrad a)
              (embs index)) a"
  using assms by (simp add: main_retrieve_def load_index_def dispatch_def Let_def)

text \<open>
  C10. When the query snapshot has no argument ids, \<^verbatim>\<open>main\<close> runs \<^verbatim>\<open>IP_retrieval\<close>: for
  a run with at least one query, distinct query ids and tensors of one width, no error
  is raised and the entry of every query is the first \<open>topk\<close> corpus indices by
  descending plain inner product over all dimensions (of the loaded shard, with the
  query as weighted by \<open>lamda\<close>), with those inner products as scores. The corpus
  argument ids and the external index play no part.
\<close>

theorem no_query_arg_idx_falls_back_to_IP:
  assumes "arg_idxs queries = None" and "1 \<le> total_shrad a" and "embs queries \<noteq> []"
    and "length (embs queries) \<le> length (ids queries)" and "distinct (ids queries)"
    and "\<forall>q\<in>set (embs queries). embs_ok q (embs index)"
  shows "\<exists>results scores corpus.
           load_index (total_shrad a) (shrad a) index = Inr corpus \<and>
           main_retrieve faiss_search a queries index = Inr (results, scores) \<and>
           (\<forall>i<length (embs queries).
              map_of results (ids queries ! i) =
                Some (take (topk a) (argsort_desc
                        (map (\<lambda>c. dot c (scale_cls a (embs queries) ! i)) (embs corpus)))) \<and>
              map_of scores (ids queries ! i) =
                Some (select (map (\<lambda>c. dot c (scale_cls a (embs queries) ! i)) (embs corpus))
                        (take (topk a) (argsort_desc
                           (map (\<lambda>c. dot c (scale_cls a (embs queries) ! i)) (embs corpus)))))) \<and>
           (\<forall>f x. main_retrieve f a queries (index\<lparr>arg_idxs := x\<rparr>) = Inr (results, scores))"
proof -
  let ?per = "length (ids index) div total_shrad a"
  let ?ce = "shrad_slice (total_shrad a) (shrad a) ?per (embs index)"
  let ?Q = "scale_cls a (embs queries)"
  let ?n = "length (embs queries)"
  let ?keys = "take ?n (ids queries)"
  let ?top = "\<lambda>q. take (topk a) (argsort_desc (map (\<lambda>c. dot c q) ?ce))"
  let ?sc = "\<lambda>q. select (map (\<lambda>c. dot c q) ?ce) (?top q)"
  let ?results = "zip ?keys (map ?top ?Q)"
  let ?scores = "zip ?keys (map ?sc ?Q)"
  let ?corpus = "\<lparr>embs = ?ce,
      arg_idxs = map_option (shrad_slice (total_shrad a) (shrad a) ?per) (arg_idxs index),
      ids = shrad_slice (total_shrad a) (shrad a) ?per (ids index)\<rparr>"
  have ld: "load_index (total_shrad a) (shrad a) index = Inr ?corpus"
    using assms(2) by (simp add: load_index_def Let_def)
  have ok: "\<forall>q\<in>set ?Q. embs_ok q ?ce"
  proof
    fix q assume "q \<in> set ?Q"
    then obtain i where i: "i < ?n" and q: "q = ?Q ! i"
      by (auto simp: in_set_conv_nth scale_cls_shape)
    from i assms(6) have "embs_ok (embs queries ! i) (embs index)" by simp
    with i q set_shrad_slice [of "total_shrad a" "shrad a" ?per "embs index"]
    show "embs_ok q ?ce"
      by (auto simp: embs_ok_def list_all_iff scale_cls_shape)
  qed
  have ip: "IP_retrieval (ids queries) ?Q ?ce a = Inr (?results, ?scores)"
    using IP_retrieval_distinct [of ?Q "ids queries" ?ce a] assms(3,4,5) ok
    by (simp add: scale_cls_shape scale_cls_def Let_def)
  have run: "main_retrieve f a queries (index\<lparr>arg_idxs := x\<rparr>) = Inr (?results, ?scores)" for f x
    using main_retrieve_no_query_arg_idx [OF assms(1,2), of f "index\<lparr>arg_idxs := x\<rparr>"] ip
    by simp
  have run0: "main_retrieve faiss_search a queries index = Inr (?results, ?scores)"
    using main_retrieve_no_query_arg_idx [OF assms(1,2), of faiss_search index] ip
    by simp
  have "\<forall>i<?n. map_of ?results (ids queries ! i) = Some (?top (?Q ! i)) \<and>
               map_of ?scores (ids queries ! i) = Some (?sc (?Q ! i))"
  proof (intro allI impI conjI)
    fix i assume i: "i < ?n"
    from map_of_zip_take_nth [OF i assms(4,5), of "map ?top ?Q"] i
    show "map_of ?results (ids queries ! i) = Some (?top (?Q ! i))"
      by (simp add: scale_cls_shape)
    from map_of_zip_take_nth [OF i assms(4,5), of "map ?sc ?Q"] i
    show "map_of ?scores (ids queries ! i) = Some (?sc (?Q ! i))"
      by (simp add: scale_cls_shape)
  qed
  with ld run0 run show ?thesis
    by (intro exI [of _ ?results] exI [of _ ?scores] exI [of _ ?corpus]) simp
qed


theorem no_query_arg_idx_falls_back_to_IP_witness:
  "main_retrieve (\<lambda>q k. ([], [])) (default_args\<lparr>topk := 2\<rparr>)
     \<lparr>embs = [[1, 0], [0, 1]], arg_idxs = None, ids = [''q1'', ''q2'']\<rparr>
     \<lparr>embs = [[1, 2], [3, 1], [0, 5], [2, 4]], arg_idxs = Some [[0, 0], [0, 0], [0, 0], [0, 0]],
      ids = [''d1'', ''d2'', ''d3'', ''d4'']\<rparr>
   = Inr ([(''q1'', [1, 3]), (''q2'', [2, 3])], [(''q1'', [3, 2]), (''q2'', [5, 4])]) \<and>
   (\<exists>results scores corpus.
      load_index (total_shrad (default_args\<lparr>topk := 2\<rparr>)) (shrad (default_args\<lparr>topk := 2\<rparr>))
        \<lparr>embs = [[1, 2], [3, 1], [0, 5], [2, 4]],
         arg_idxs = Some [[0, 0], [0, 0], [0, 0], [0, 0]],
         ids = [''d1'', ''d2'', ''d3'', ''d4'']\<rparr> = Inr corpus \<and>
      main_retrieve (\<lambda>q k. ([], [])) (default_args\<lparr>topk := 2\<rparr>)
        \<lparr>embs = [[1, 0], [0, 1]], arg_idxs = None, ids = [''q1'', ''q2'']\<rparr>
        \<lparr>embs = [[1, 2], [3, 1], [0, 5], [2, 4]],
         arg_idxs = Some [[0, 0], [0, 0], [0, 0], [0, 0]],
         ids = [''d1'', ''d2'', ''d3'', ''d4'']\<rparr> = Inr (results, scores) \<and>
      map_of results ''q1'' = Some [1, 3] \<and> map_of scores ''q1'' = Some [3, 2] \<and>
      map_of results ''q2'' = Some [2, 3] \<and> map_of scores ''q2'' = Some [5, 4])"
proof -
  let ?a = "default_args\<lparr>topk := 2\<rparr>"
  let ?Q = "\<lparr>embs = [[1, 0], [0, 1]], arg_idxs = None, ids = [''q1'', ''q2'']\<rparr>"
  let ?I = "\<lparr>embs = [[1, 2], [3, 1], [0, 5], [2, 4]],
             arg_idxs = Some [[0, 0], [0, 0], [0, 0], [0, 0]],
             ids = [''d1'', ''d2'', ''d3'', ''d4'']\<rparr>"
  have h: "arg_idxs ?Q = None" "1 \<le> total_shrad ?a" "embs ?Q \<noteq> []"
      "length (embs ?Q) \<le> length (ids ?Q)" "distinct (ids ?Q)"
      "\<forall>q\<in>set (embs ?Q). embs_ok q (embs ?I)"
    by (simp_all add: default_args_def embs_ok_def)
  have m: "main_retrieve (\<lambda>q k. ([], [])) ?a ?Q ?I
           = Inr ([(''q1'', [1, 3]), (''q2'', [2, 3])], [(''q1'', [3, 2]), (''q2'', [5, 4])])"
    by (simp add: main_retrieve_def load_index_def shrad_slice_def dispatch_def
          IP_retrieval_def IP_query_def ip_scores_def embs_ok_def einsum_ij_j_def dot_def
          scale_cls_def width_def default_args_def argsort_desc_def select_def Let_def)
  from no_query_arg_idx_falls_back_to_IP [OF h, of "\<lambda>q k. ([], [])"]
  obtain results scores corpus where
    l: "load_index (total_shrad ?a) (shrad ?a) ?I = Inr corpus"
    and r: "main_retrieve (\<lambda>q k. ([], [])) ?a ?Q ?I = Inr (results, scores)"
    by blast
  from r m have "results = [(''q1'', [1, 3]), (''q2'', [2, 3])]"
      "scores = [(''q1'', [3, 2]), (''q2'', [5, 4])]"
    by simp_all
  then have "map_of results ''q1'' = Some [1, 3] \<and> map_of scores ''q1'' = Some [3, 2] \<and>
      map_of results ''q2'' = Some [2, 3] \<and> map_of scores ''q2'' = Some [5, 4]"
    by simp
  with l r m show ?thesis
    by blast
qed

subsection \<open>Rerank\<close>

lemma mset_argsort_desc: "mset (argsort_desc xs) = mset [0..<length xs]"
proof -
  have "set (argsort_desc xs) = set [0..<length xs]"
    by (simp add: set_argsort_desc atLeast0LessThan)
  with set_eq_iff_mset_eq_distinct [OF distinct_argsort_desc distinct_upt, of xs 0 "length xs"]
  show ?thesis
    by blast
qed

lemma mset_select_argsort_desc:
  "length ys = length xs \<Longrightarrow> mset (select ys (argsort_desc xs)) = mset ys"
proof -
  assume len: "length ys = length xs"
  have "mset (select ys (argsort_desc xs)) = image_mset (\<lambda>i. ys ! i) (mset (argsort_desc xs))"
    by (simp add: select_def)
  also have "\<dots> = mset (map (\<lambda>i. ys ! i) [0..<length ys])"
    by (simp add: mset_argsort_desc len)
  also have "\<dots> = mset ys"
    by (simp add: map_nth)
  finally show ?thesis .
qed

lemma select_argsort_desc: "select xs (argsort_desc xs) = rev (sort xs)"
proof -
  let ?ys = "select xs (argsort_desc xs)"
  have "nonincreasing (select xs (take (length xs) (argsort_desc xs)))"
    by (rule nonincreasing_select_argsort)
  then have "sorted_wrt (\<lambda>x y. x \<ge> y) ?ys"
    by (simp add: nonincreasing_def length_argsort_desc)
  then have "sorted (rev ?ys)"
    by (simp add: sorted_wrt_rev)
  moreover have "mset (rev ?ys) = mset xs"
    by (simp add: mset_select_argsort_desc)
  ultimately have "sort xs = rev ?ys"
    by (intro properties_for_sort)
  then show ?thesis by simp
qed

lemma select_take: "select xs (take k idx) = take k (select xs idx)"
  by (simp add: select_def take_map)

lemma mset_take_subseteq: "mset (take k xs) \<subseteq># mset xs"
proof -
  have "mset xs = mset (take k xs) + mset (drop k xs)"
    by (metis append_take_drop_id mset_append)
  then show ?thesis by simp
qed

lemma sort_map_key: "sort (map f xs) = map f (sort_key f xs)"
  by (rule properties_for_sort) simp_all

lemma unique_ranking:
  assumes "distinct (map f sl)" and "mset cands \<subseteq># mset sl"
    and "map f cands = take k (rev (sort (map f sl)))"
  shows "cands = take k (rev (sort_key f sl))"
proof -
  from assms(3) have eq: "map f cands = map f (take k (rev (sort_key f sl)))"
    by (simp add: sort_map_key rev_map take_map)
  from assms(2) have "set cands \<subseteq> set sl"
    by (metis set_mset_mono set_mset_mset)
  moreover have "set (take k (rev (sort_key f sl))) \<subseteq> set sl"
    using set_take_subset [of k "rev (sort_key f sl)"] by simp
  moreover from assms(1) have "inj_on f (set sl)"
    by (simp add: distinct_map)
  ultimately have "inj_on f (set cands \<union> set (take k (rev (sort_key f sl))))"
    by (auto intro: inj_on_subset)
  with eq show ?thesis
    by (simp add: inj_on_map_eq_map)
qed


lemma shapes_select:
  assumes "list_all (\<lambda>c. c < length cembs) shortlist"
    and "embs_ok q cembs" and "args_ok q qa cembs cargs"
  shows "embs_ok q (select cembs shortlist)"
    and "args_ok q qa (select cembs shortlist) (select cargs shortlist)"
  using assms by (auto simp: embs_ok_def args_ok_def select_def list_all_iff)

lemma GIP_rerank_exact:
  assumes idx: "list_all (\<lambda>c. c < length cembs \<and> c < length cargs) shortlist"
    and shapes: "embs_ok q (select cembs shortlist)"
      "args_ok q qa (select cembs shortlist) (select cargs shortlist)"
    and k: "k \<le> length shortlist"
  shows "\<exists>r. GIP_rerank k q qa cembs cargs shortlist = Inr r \<and>
             exact_on_shortlist k (spec_exact_scores q qa cembs cargs) shortlist r"
proof -
  let ?exact = "spec_exact_scores q qa cembs cargs"
  let ?f = "\<lambda>c. ?exact ! c"
  let ?S = "map ?f shortlist"
  let ?idx = "take k (argsort_desc ?S)"
  let ?cands = "select shortlist ?idx"
  let ?scores = "select ?S ?idx"
  from idx have lt: "shortlist ! p < length cembs" if "p < length shortlist" for p
    using that by (simp add: list_all_length)
  have "gip_scores q qa (select cembs shortlist) (select cargs shortlist) =
        Inr (map (\<lambda>p. spec_gip_score q qa (select cembs shortlist ! p)
                        (select cargs shortlist ! p)) [0..<length (select cembs shortlist)])"
    using shapes by (rule gip_scores_spec)
  moreover have "map (\<lambda>p. spec_gip_score q qa (select cembs shortlist ! p)
                        (select cargs shortlist ! p)) [0..<length (select cembs shortlist)] = ?S"
    by (rule nth_equalityI) (simp_all add: select_def spec_exact_scores_def lt)
  ultimately have sc: "gip_scores q qa (select cembs shortlist) (select cargs shortlist) = Inr ?S"
    by simp
  have tk: "torch_topk ?S k = Inr ?idx"
    using k by (simp add: torch_topk_def)
  have run: "GIP_rerank k q qa cembs cargs shortlist = Inr (?cands, ?scores)"
    using idx sc tk by (simp add: GIP_rerank_def)
  have len: "length ?cands = k"
    using k by (simp add: length_select length_argsort_desc)
  have sub: "mset ?cands \<subseteq># mset shortlist"
  proof -
    have "mset (select shortlist (argsort_desc ?S)) = mset shortlist"
      by (rule mset_select_argsort_desc) simp
    with mset_take_subseteq [of k "select shortlist (argsort_desc ?S)"] show ?thesis
      by (simp add: select_take)
  qed
  have "\<forall>p\<in>set ?idx. p < length shortlist"
    using torch_topk_range [OF tk] by simp
  then have own: "?scores = map ?f ?cands"
    by (simp add: select_def)
  have top: "?scores = take k (rev (sort ?S))"
    by (simp only: select_take select_argsort_desc)
  have uniq: "?cands = take k (spec_ranking_of_shortlist ?exact shortlist)" if d: "distinct ?S"
  proof -
    have e: "map ?f ?cands = take k (rev (sort ?S))"
      by (rule trans [OF own [symmetric] top])
    show ?thesis
      unfolding spec_ranking_of_shortlist_def by (rule unique_ranking [OF d sub e])
  qed
  have "exact_on_shortlist k ?exact shortlist (?cands, ?scores)"
    unfolding exact_on_shortlist_def spec_topk_of_shortlist_def fst_conv snd_conv
    using len sub own top uniq by blast
  with run show ?thesis by blast
qed

lemma GIP_rerank_Inr_exact:
  assumes "GIP_rerank k q qa cembs cargs shortlist = Inr r"
  shows "exact_on_shortlist k (spec_exact_scores q qa cembs cargs) shortlist r"
proof -
  from assms have idx: "list_all (\<lambda>c. c < length cembs \<and> c < length cargs) shortlist"
    by (auto simp: GIP_rerank_def split: if_splits)
  with assms obtain s where
    s: "gip_scores q qa (select cembs shortlist) (select cargs shortlist) = Inr s"
    and tk: "torch_topk s k \<noteq> Inl TopkOutOfRange"
    by (auto simp: GIP_rerank_def torch_topk_def split: sum.splits if_splits)
  from s have shapes: "embs_ok q (select cembs shortlist)"
      "args_ok q qa (select cembs shortlist) (select cargs shortlist)"
    by (auto simp: gip_scores_def split: if_splits)
  from gip_scores_length [OF s] tk have "k \<le> length shortlist"
    by (simp add: torch_topk_def length_select split: if_splits)
  from GIP_rerank_exact [OF idx shapes this] assms show ?thesis
    by auto
qed

lemma GIP_rerank_total:
  assumes valid: "list_all (\<lambda>c. c < length cembs) shortlist"
    and shapes: "embs_ok q cembs" "args_ok q qa cembs cargs"
    and k: "k \<le> length shortlist"
  shows "\<exists>r. GIP_rerank k q qa cembs cargs shortlist = Inr r"
proof -
  from valid shapes have "list_all (\<lambda>c. c < length cembs \<and> c < length cargs) shortlist"
    by (simp add: args_ok_def)
  from GIP_rerank_exact [OF this shapes_select [OF valid shapes] k] show ?thesis
    by blast
qed

lemma partial_scores_length:
  "partial_scores a q qa cembs cargs = Inr ps \<Longrightarrow> length ps = length cembs"
  by (auto simp: partial_scores_def ip_scores_def einsum_ij_j_def cols_def
      split: sum.splits if_splits dest!: gip_scores_length)


text \<open>
  C3. The reranker scores the shortlist with the exact gated inner product over all
  dimensions and returns the best \<open>topk\<close> of the shortlist. Whatever it returns, for any
  shortlist however chosen, is a top \<open>topk\<close> of the brute-force exact ranking restricted
  to that shortlist: \<open>topk\<close> members of the shortlist with their exact scores, which are
  the \<open>topk\<close> largest exact scores of the shortlist in descending order; and when no two
  exact scores of the shortlist are equal it is the first \<open>topk\<close> of that ranking,
  candidate by candidate. This holds whatever order torch gives to equal scores. It
  holds for the rerank code of \<^verbatim>\<open>GIP_retrieval\<close> and for the same lines of
  \<^verbatim>\<open>PQ_IP_retrieval\<close>; and the reranker does return when the shortlist holds corpus
  indices, at least \<open>topk\<close> of them, and the tensors have one width.
\<close>

theorem rerank_exact_on_shortlist:
  assumes "rerank a"
  shows "(\<forall>r. GIP_rerank (topk a) q qa cembs cargs shortlist = Inr r \<longrightarrow>
              exact_on_shortlist (topk a) (spec_exact_scores q qa cembs cargs) shortlist r) \<and>
         (\<forall>r. PQ_query a q qa cembs cargs (pq_scores, shortlist) = Inr r \<longrightarrow>
              exact_on_shortlist (topk a) (spec_exact_scores q qa cembs cargs) shortlist r) \<and>
         (\<forall>r. theta a \<noteq> 0 \<and> partial_scores a q qa cembs cargs = Inr ps \<and>
              torch_topk ps (agip_topk a) = Inr shortlist \<and>
              GIP_query a q qa cembs cargs = Inr r \<longrightarrow>
              exact_on_shortlist (topk a) (spec_exact_scores q qa cembs cargs) shortlist r) \<and>
         (embs_ok q cembs \<and> args_ok q qa cembs cargs \<and>
          list_all (\<lambda>c. c < length cembs) shortlist \<and> topk a \<le> length shortlist \<longrightarrow>
          (\<exists>r. GIP_rerank (topk a) q qa cembs cargs shortlist = Inr r))"
proof (intro conjI allI impI)
  fix r assume "GIP_rerank (topk a) q qa cembs cargs shortlist = Inr r"
  then show "exact_on_shortlist (topk a) (spec_exact_scores q qa cembs cargs) shortlist r"
    by (rule GIP_rerank_Inr_exact)
next
  fix r assume "PQ_query a q qa cembs cargs (pq_scores, shortlist) = Inr r"
  with assms have "GIP_rerank (topk a) q qa cembs cargs shortlist = Inr r"
    by (simp add: PQ_query_def split: sum.splits if_splits)
  then show "exact_on_shortlist (topk a) (spec_exact_scores q qa cembs cargs) shortlist r"
    by (rule GIP_rerank_Inr_exact)
next
  fix r assume "theta a \<noteq> 0 \<and> partial_scores a q qa cembs cargs = Inr ps \<and>
      torch_topk ps (agip_topk a) = Inr shortlist \<and> GIP_query a q qa cembs cargs = Inr r"
  with assms have "GIP_rerank (topk a) q qa cembs cargs shortlist = Inr r"
    by (clarsimp simp: GIP_query_def)
  then show "exact_on_shortlist (topk a) (spec_exact_scores q qa cembs cargs) shortlist r"
    by (rule GIP_rerank_Inr_exact)
next
  assume "embs_ok q cembs \<and> args_ok q qa cembs cargs \<and>
      list_all (\<lambda>c. c < length cembs) shortlist \<and> topk a \<le> length shortlist"
  then show "\<exists>r. GIP_rerank (topk a) q qa cembs cargs shortlist = Inr r"
    by (intro GIP_rerank_total) simp_all
qed

theorem rerank_exact_on_shortlist_witness:
  "GIP_rerank 2 [1, 2, 3] [0, 0, 1] [[1, 1, 1], [20, 2, 2], [0, 0, 5]]
       [[0, 1, 1], [0, 0, 0], [1, 1, 1]] [2, 1] = Inr ([1, 2], [24, 15]) \<and>
   spec_exact_scores [1, 2, 3] [0, 0, 1] [[1, 1, 1], [20, 2, 2], [0, 0, 5]]
       [[0, 1, 1], [0, 0, 0], [1, 1, 1]] = [4, 24, 15] \<and>
   exact_on_shortlist 2 [4, 24, 15] [2, 1] ([1, 2], [24, 15]) \<and>
   take 2 (spec_ranking_of_shortlist [4, 24, 15] [2, 1]) = [1, 2] \<and>
   PQ_query (default_args\<lparr>theta := 1, rerank := True, agip_topk := 2, topk := 2\<rparr>)
       [1, 2, 3] [0, 0, 1] [[1, 1, 1], [20, 2, 2], [0, 0, 5]]
       [[0, 1, 1], [0, 0, 0], [1, 1, 1]] ([9, 8], [2, 1]) = Inr ([1, 2], [24, 15]) \<and>
   partial_scores (default_args\<lparr>theta := 1, rerank := True, agip_topk := 2, topk := 2\<rparr>)
       [1, 2, 3] [0, 0, 1] [[1, 1, 1], [20, 2, 2], [0, 0, 5]]
       [[0, 1, 1], [0, 0, 0], [1, 1, 1]] = Inr [3, 4, 15] \<and>
   torch_topk [3, 4, 15] 2 = Inr [2, 1] \<and>
   GIP_query (default_args\<lparr>theta := 1, rerank := True, agip_topk := 2, topk := 2\<rparr>)
       [1, 2, 3] [0, 0, 1] [[1, 1, 1], [20, 2, 2], [0, 0, 5]]
       [[0, 1, 1], [0, 0, 0], [1, 1, 1]] = Inr ([1, 2], [24, 15])"
proof -
  let ?a = "default_args\<lparr>theta := 1, rerank := True, agip_topk := 2, topk := 2\<rparr>"
  let ?ce = "[[1, 1, 1], [20, 2, 2], [0, 0, 5 :: real]]"
  let ?ca = "[[0, 1, 1], [0, 0, 0], [1, 1, 1 :: int]]"
  have r: "rerank ?a" by simp
  have k: "topk ?a = 2" by simp
  have g: "GIP_rerank (topk ?a) [1, 2, 3] [0, 0, 1] ?ce ?ca [2, 1] = Inr ([1, 2], [24, 15])"
    by (simp add: GIP_rerank_def gip_scores_def embs_ok_def args_ok_def einsum_ij_j_def
          gate_def gate_row_def dot_def torch_topk_def argsort_desc_def select_def)
  have e: "spec_exact_scores [1, 2, 3] [0, 0, 1] ?ce ?ca = [4, 24, 15]"
    by (simp add: spec_exact_scores_def spec_gip_score_def lessThan_nat_numeral lessThan_Suc
          upt_rec)
  have x: "exact_on_shortlist 2 [4, 24, 15] [2, 1] ([1, 2], [24, 15])"
    using rerank_exact_on_shortlist [OF r, THEN conjunct1, rule_format, OF g]
    unfolding e k .
  have u: "take 2 (spec_ranking_of_shortlist [4, 24, 15] [2, 1]) = [1, 2]"
    by (simp add: spec_ranking_of_shortlist_def)
  have t: "torch_topk [3, 4, 15] 2 = Inr [2, 1]"
    by (simp add: torch_topk_def argsort_desc_def)
  have p: "partial_scores ?a [1, 2, 3] [0, 0, 1] ?ce ?ca = Inr [3, 4, 15]"
    by (simp add: partial_scores_def default_args_def num_idx_def torch_topk_def
          argsort_desc_def gip_scores_def embs_ok_def args_ok_def einsum_ij_j_def gate_def
          gate_row_def dot_def select_def cols_def)
  from g have pq: "PQ_query ?a [1, 2, 3] [0, 0, 1] ?ce ?ca ([9, 8], [2, 1]) = Inr ([1, 2], [24, 15])"
    by (simp add: PQ_query_def)
  from g p t have gq: "GIP_query ?a [1, 2, 3] [0, 0, 1] ?ce ?ca = Inr ([1, 2], [24, 15])"
    by (simp add: GIP_query_def)
  from g have g2: "GIP_rerank 2 [1, 2, 3] [0, 0, 1] ?ce ?ca [2, 1] = Inr ([1, 2], [24, 15])"
    by simp
  show ?thesis
    by (intro conjI g2 e x u pq p t gq)
qed

subsection \<open>Length and order in every mode\<close>

lemma GIP_query_no_corpus_ids_ranked:
  "GIP_query_no_corpus_ids a q cembs = Inr r \<Longrightarrow> ranked (topk a) r"
  by (auto simp: GIP_query_no_corpus_ids_def Let_def split: if_splits sum.splits
      dest!: torch_topk_ranked [where f = "\<lambda>idx. idx", rotated])

text \<open>
  C6. Whenever \<^verbatim>\<open>main\<close>'s dispatch returns, in whichever mode, every list stored for a
  query has at most \<open>topk\<close> entries and the stored scores do not increase along the
  ranks. The modes are \<^verbatim>\<open>IP_retrieval\<close>, \<^verbatim>\<open>GIP_retrieval\<close> with every setting of
  \<open>theta\<close>, the IP flag and rerank, with corpus argument ids present or absent, and
  \<^verbatim>\<open>PQ_IP_retrieval\<close>, which as shipped raises before it ranks anything.
\<close>

theorem results_bounded_and_sorted:
  assumes "dispatch faiss_search a qids query_embs query_arg_idxs corpus_embs corpus_arg_idxs
           = Inr (results, scores)"
  shows "(\<forall>(qid, c)\<in>set results. length c \<le> topk a) \<and>
         (\<forall>(qid, s)\<in>set scores. length s \<le> topk a \<and> nonincreasing s)"
proof (cases query_arg_idxs)
  case None
  with assms have "retrieval_loop (\<lambda>q. IP_query a q corpus_embs) qids 0 query_embs ([], [])
                   = Inr (results, scores)"
    by (simp add: dispatch_def IP_retrieval_def split: if_splits)
  then show ?thesis
    by (rule retrieval_loop_ranked) (simp_all add: IP_query_ranked)
next
  case (Some qargs)
  from assms Some have pq: "\<not> PQIP a"
    by (auto simp: dispatch_def PQ_IP_retrieval_def split: if_splits)
  define a' where "a' = (if brute_force a then a\<lparr>theta := 0\<rparr> else a)"
  have k: "topk a' = topk a" by (simp add: a'_def)
  show ?thesis
  proof (cases corpus_arg_idxs)
    case cs: (Some cargs)
    from assms Some cs pq obtain qs cs' where
      "retrieval_loop (\<lambda>(q, qa). GIP_query a' q qa corpus_embs cs') qids 0 qs ([], [])
       = Inr (results, scores)"
      by (auto simp: dispatch_def GIP_retrieval_def Let_def a'_def split: if_splits)
    then show ?thesis
      by (rule retrieval_loop_ranked) (auto dest: GIP_query_ranked simp: k)
  next
    case None
    from assms Some None pq have
      "retrieval_loop (\<lambda>(q, qa). GIP_query_no_corpus_ids a' q corpus_embs) qids 0
         (zip query_embs qargs) ([], []) = Inr (results, scores)"
      by (auto simp: dispatch_def GIP_retrieval_no_corpus_ids_def Let_def a'_def
          split: if_splits)
    then show ?thesis
      by (rule retrieval_loop_ranked) (auto dest: GIP_query_no_corpus_ids_ranked simp: k)
  qed
qed

theorem results_bounded_and_sorted_witness:
  "dispatch (\<lambda>q k. ([], [])) (default_args\<lparr>theta := 0, topk := 2\<rparr>) [1, 2 :: nat]
       [[1, 2, 3], [1, 0, 0]] (Some [[0, 0, 1], [5, 5, 5]])
       [[1, 1, 1], [2, 2, 2]] (Some [[0, 1, 1], [5, 7, 7]])
     = Inr ([(1, [0, 1]), (2, [1, 0])], [(1, [4, 0]), (2, [2, 0])]) \<and>
   length [0, 1 :: nat] \<le> topk (default_args\<lparr>theta := 0, topk := 2\<rparr>) \<and>
   length [1, 0 :: nat] \<le> topk (default_args\<lparr>theta := 0, topk := 2\<rparr>) \<and>
   length [4, 0 :: real] \<le> topk (default_args\<lparr>theta := 0, topk := 2\<rparr>) \<and>
   nonincreasing [4, 0] \<and>
   length [2, 0 :: real] \<le> topk (default_args\<lparr>theta := 0, topk := 2\<rparr>) \<and>
   nonincreasing [2, 0] \<and>
   dispatch (\<lambda>q k. ([], [])) (default_args\<lparr>theta := 0, topk := 1\<rparr>) [1 :: nat]
       [[1, 2, 3]] (Some [[0, 0, 1]]) [[1, 1, 1]] None
     = Inr ([(1, [0])], [(1, [0])]) \<and>
   length [0 :: nat] \<le> topk (default_args\<lparr>theta := 0, topk := 1\<rparr>) \<and>
   length [0 :: real] \<le> topk (default_args\<lparr>theta := 0, topk := 1\<rparr>) \<and>
   nonincreasing [0]"
proof -
  have d: "dispatch (\<lambda>q k. ([], [])) (default_args\<lparr>theta := 0, topk := 2\<rparr>) [1, 2 :: nat]
       [[1, 2, 3], [1, 0, 0]] (Some [[0, 0, 1], [5, 5, 5]])
       [[1, 1, 1], [2, 2, 2]] (Some [[0, 1, 1], [5, 7, 7]])
     = Inr ([(1, [0, 1]), (2, [1, 0])], [(1, [4, 0]), (2, [2, 0])])"
    by (simp add: dispatch_def default_args_def GIP_retrieval_def width_def GIP_query_def
          gip_scores_def embs_ok_def args_ok_def einsum_ij_j_def gate_def gate_row_def
          dot_def torch_topk_def argsort_desc_def select_def)
  have n: "dispatch (\<lambda>q k. ([], [])) (default_args\<lparr>theta := 0, topk := 1\<rparr>) [1 :: nat]
       [[1, 2, 3]] (Some [[0, 0, 1]]) [[1, 1, 1]] None
     = Inr ([(1, [0])], [(1, [0])])"
    by (simp add: dispatch_def default_args_def GIP_retrieval_no_corpus_ids_def width_def
          GIP_query_no_corpus_ids_def embs_ok_def einsum_ij_j_def dot_def torch_topk_def
          argsort_desc_def select_def)
  from results_bounded_and_sorted [OF d] results_bounded_and_sorted [OF n] d n show ?thesis
    by simp
qed

subsection \<open>A run with \<open>theta = 0\<close>\<close>

lemma zip_take_length: "zip (take (length ys) xs) ys = zip xs ys"
proof (induction ys arbitrary: xs)
  case Nil
  then show ?case by simp
next
  case (Cons y ys)
  then show ?case by (cases xs) simp_all
qed

lemma GIP_query_theta0_exact:
  assumes "theta a = 0" and "embs_ok q cembs" and "args_ok q qa cembs cargs"
    and "topk a \<le> length cembs"
  shows "GIP_query a q qa cembs cargs =
         Inr (take (topk a) (argsort_desc (spec_exact_scores q qa cembs cargs)),
              select (spec_exact_scores q qa cembs cargs)
                (take (topk a) (argsort_desc (spec_exact_scores q qa cembs cargs))))"
proof -
  have "gip_scores q qa cembs cargs = Inr (spec_exact_scores q qa cembs cargs)"
    unfolding spec_exact_scores_def using assms(2,3) by (rule gip_scores_spec)
  moreover have "length (spec_exact_scores q qa cembs cargs) = length cembs"
    by (simp add: spec_exact_scores_def)
  ultimately show ?thesis
    using assms(1,4) by (simp add: GIP_query_def torch_topk_def)
qed

lemma GIP_retrieval_theta0_exact:
  assumes "theta a = 0 \<or> brute_force a" and "query_embs \<noteq> []"
    and "length query_embs \<le> length qids" and "distinct qids"
    and "topk a \<le> length corpus_embs"
    and "list_all (\<lambda>(q, qa). embs_ok q corpus_embs \<and>
             args_ok q qa corpus_embs (padded_ids a query_embs corpus_arg_idxs))
           (zip query_embs (padded_ids a query_embs query_arg_idxs))"
  shows "GIP_retrieval qids query_embs query_arg_idxs corpus_embs corpus_arg_idxs a =
         Inr (spec_brute_force_run (topk a) qids
                (zip query_embs (padded_ids a query_embs query_arg_idxs))
                corpus_embs (padded_ids a query_embs corpus_arg_idxs))"
proof -
  define a' where "a' = (if brute_force a then a\<lparr>theta := 0\<rparr> else a)"
  let ?qs = "zip query_embs (padded_ids a query_embs query_arg_idxs)"
  let ?cargs = "padded_ids a query_embs corpus_arg_idxs"
  let ?top = "\<lambda>(q, qa). take (topk a) (argsort_desc (spec_exact_scores q qa corpus_embs ?cargs))"
  let ?sc = "\<lambda>(q, qa). select (spec_exact_scores q qa corpus_embs ?cargs)
                (take (topk a) (argsort_desc (spec_exact_scores q qa corpus_embs ?cargs)))"
  from assms(1) have a': "theta a' = 0" "topk a' = topk a" "emb_dim a' = emb_dim a"
    by (auto simp: a'_def)
  have body: "\<forall>x\<in>set ?qs. (\<lambda>(q, qa). GIP_query a' q qa corpus_embs ?cargs) x = Inr (?top x, ?sc x)"
  proof
    fix x assume x: "x \<in> set ?qs"
    obtain q qa where xq: "x = (q, qa)" by (cases x)
    from x xq assms(6) have "embs_ok q corpus_embs" "args_ok q qa corpus_embs ?cargs"
      by (auto simp: list_all_iff)
    from GIP_query_theta0_exact [OF a'(1) this] assms(5) xq a'(2)
    show "(\<lambda>(q, qa). GIP_query a' q qa corpus_embs ?cargs) x = Inr (?top x, ?sc x)"
      by simp
  qed
  have len: "0 + length ?qs \<le> length qids"
    using assms(3) by simp
  have "retrieval_loop (\<lambda>(q, qa). GIP_query a' q qa corpus_embs ?cargs) qids 0 ?qs ([], []) =
        Inr ([] @ zip (take (length ?qs) (drop 0 qids)) (map ?top ?qs),
             [] @ zip (take (length ?qs) (drop 0 qids)) (map ?sc ?qs))"
    using body len assms(4) by (rule retrieval_loop_distinct) simp_all
  moreover have "zip (take (length ?qs) qids) (map ?top ?qs) = zip qids (map ?top ?qs)"
      "zip (take (length ?qs) qids) (map ?sc ?qs) = zip qids (map ?sc ?qs)"
    using zip_take_length [of "map ?top ?qs" qids] zip_take_length [of "map ?sc ?qs" qids]
    by simp_all
  ultimately have "retrieval_loop (\<lambda>(q, qa). GIP_query a' q qa corpus_embs ?cargs) qids 0 ?qs
                     ([], []) =
                   Inr (spec_brute_force_run (topk a) qids ?qs corpus_embs ?cargs)"
    by (simp add: spec_brute_force_run_def)
  with assms(2) a'(3) show ?thesis
    by (cases "emb_dim a < width query_embs")
      (simp_all add: GIP_retrieval_def Let_def padded_ids_def a'_def [symmetric])
qed


text \<open>
  C2. The number of important dimensions \<open>|{j. query[j] > theta}|\<close> does not grow when
  \<open>theta\<close> grows. A run with \<open>theta = 0\<close> returns, whatever its IP and rerank flags,
  the brute-force exact result computed over all dimensions: for every query the first
  \<open>topk\<close> corpus indices by the exact gated score \<open>spec_gip_score\<close>, with those scores;
  and so does the run with the brute-force flag, whatever its \<open>theta\<close>. The two runs are
  equal on every input.
\<close>

theorem theta_pruning_monotone_and_exact_at_0:
  assumes "th1 \<le> th2"
  shows "num_idx th2 q \<le> num_idx th1 q \<and>
         num_idx th1 q = card {j. j < length q \<and> q ! j > th1} \<and>
         GIP_retrieval qids query_embs query_arg_idxs corpus_embs corpus_arg_idxs
             (a\<lparr>theta := 0, brute_force := False\<rparr>) =
         GIP_retrieval qids query_embs query_arg_idxs corpus_embs corpus_arg_idxs
             (a\<lparr>brute_force := True\<rparr>) \<and>
         (theta a = 0 \<and> query_embs \<noteq> [] \<and> length query_embs \<le> length qids \<and>
          distinct qids \<and> topk a \<le> length corpus_embs \<and>
          list_all (\<lambda>(qe, qa). embs_ok qe corpus_embs \<and>
                      args_ok qe qa corpus_embs (padded_ids a query_embs corpus_arg_idxs))
            (zip query_embs (padded_ids a query_embs query_arg_idxs)) \<longrightarrow>
          GIP_retrieval qids query_embs query_arg_idxs corpus_embs corpus_arg_idxs a =
            Inr (spec_brute_force_run (topk a) qids
                   (zip query_embs (padded_ids a query_embs query_arg_idxs))
                   corpus_embs (padded_ids a query_embs corpus_arg_idxs)) \<and>
          GIP_retrieval qids query_embs query_arg_idxs corpus_embs corpus_arg_idxs
              (a\<lparr>brute_force := True, theta := th\<rparr>) =
            Inr (spec_brute_force_run (topk a) qids
                   (zip query_embs (padded_ids a query_embs query_arg_idxs))
                   corpus_embs (padded_ids a query_embs corpus_arg_idxs)))"
proof -
  have "GIP_query (a\<lparr>theta := 0, brute_force := False\<rparr>) = GIP_query (a\<lparr>brute_force := True, theta := 0\<rparr>)"
    by (intro ext GIP_query_theta0_cong) simp_all
  then have same: "GIP_retrieval qids query_embs query_arg_idxs corpus_embs corpus_arg_idxs
             (a\<lparr>theta := 0, brute_force := False\<rparr>) =
         GIP_retrieval qids query_embs query_arg_idxs corpus_embs corpus_arg_idxs
             (a\<lparr>brute_force := True\<rparr>)"
    by (simp add: GIP_retrieval_def Let_def)
  have exact: "GIP_retrieval qids query_embs query_arg_idxs corpus_embs corpus_arg_idxs a =
            Inr (spec_brute_force_run (topk a) qids
                   (zip query_embs (padded_ids a query_embs query_arg_idxs))
                   corpus_embs (padded_ids a query_embs corpus_arg_idxs)) \<and>
          GIP_retrieval qids query_embs query_arg_idxs corpus_embs corpus_arg_idxs
              (a\<lparr>brute_force := True, theta := th\<rparr>) =
            Inr (spec_brute_force_run (topk a) qids
                   (zip query_embs (padded_ids a query_embs query_arg_idxs))
                   corpus_embs (padded_ids a query_embs corpus_arg_idxs))"
    if h: "theta a = 0 \<and> query_embs \<noteq> [] \<and> length query_embs \<le> length qids \<and>
          distinct qids \<and> topk a \<le> length corpus_embs \<and>
          list_all (\<lambda>(qe, qa). embs_ok qe corpus_embs \<and>
                      args_ok qe qa corpus_embs (padded_ids a query_embs corpus_arg_idxs))
            (zip query_embs (padded_ids a query_embs query_arg_idxs))"
  proof -
    let ?b = "a\<lparr>brute_force := True, theta := th\<rparr>"
    have p: "padded_ids ?b = padded_ids a"
      by (simp add: padded_ids_def fun_eq_iff)
    from h have "GIP_retrieval qids query_embs query_arg_idxs corpus_embs corpus_arg_idxs a =
            Inr (spec_brute_force_run (topk a) qids
                   (zip query_embs (padded_ids a query_embs query_arg_idxs))
                   corpus_embs (padded_ids a query_embs corpus_arg_idxs))"
      by (intro GIP_retrieval_theta0_exact) simp_all
    moreover from h have "GIP_retrieval qids query_embs query_arg_idxs corpus_embs
              corpus_arg_idxs ?b =
            Inr (spec_brute_force_run (topk ?b) qids
                   (zip query_embs (padded_ids ?b query_embs query_arg_idxs))
                   corpus_embs (padded_ids ?b query_embs corpus_arg_idxs))"
      by (intro GIP_retrieval_theta0_exact) (simp_all add: p)
    ultimately show ?thesis
      by (simp add: p)
  qed
  from num_idx_antimono [OF assms, of q] num_idx_card [of th1 q] same exact show ?thesis
    by blast
qed

theorem theta_pruning_monotone_and_exact_at_0_witness:
  "num_idx 2 [1, 2, 3] \<le> num_idx 1 [1, 2, 3] \<and> num_idx 1 [1, 2, 3] = 2 \<and>
   GIP_retrieval [''q''] [[1, 2, 3]] [[0, 0, 1]] [[1, 1, 1]] [[0, 1, 1]]
       (default_args\<lparr>emb_dim := 3, topk := 1, theta := 0, IP := True, rerank := True\<rparr>)
     = Inr ([(''q'', [0])], [(''q'', [4])]) \<and>
   GIP_retrieval [''q''] [[1, 2, 3]] [[0, 0, 1]] [[1, 1, 1]] [[0, 1, 1]]
       (default_args\<lparr>emb_dim := 3, topk := 1, theta := 0, IP := True, rerank := True,
          brute_force := True, theta := 1 / 2\<rparr>)
     = Inr ([(''q'', [0])], [(''q'', [4])]) \<and>
   spec_brute_force_run 1 [''q''] [([1, 2, 3], [0, 0, 1])] [[1, 1, 1]] [[0, 1, 1]]
     = ([(''q'', [0])], [(''q'', [4])])"
proof -
  let ?a = "default_args\<lparr>emb_dim := 3, topk := 1, theta := 0, IP := True, rerank := True\<rparr>"
  have le: "(1::real) \<le> 2" by simp
  have h: "theta ?a = 0 \<and> [[1, 2, 3 :: real]] \<noteq> [] \<and>
      length [[1, 2, 3 :: real]] \<le> length [''q''] \<and> distinct [''q''] \<and>
      topk ?a \<le> length [[1, 1, 1 :: real]] \<and>
      list_all (\<lambda>(qe, qa). embs_ok qe [[1, 1, 1]] \<and>
                  args_ok qe qa [[1, 1, 1]] (padded_ids ?a [[1, 2, 3]] [[0, 1, 1]]))
        (zip [[1, 2, 3]] (padded_ids ?a [[1, 2, 3]] [[0, 0, 1]]))"
    by (simp add: padded_ids_def width_def embs_ok_def args_ok_def)
  have s: "spec_brute_force_run 1 [''q''] [([1, 2, 3], [0, 0, 1])] [[1, 1, 1]] [[0, 1, 1]]
           = ([(''q'', [0])], [(''q'', [4])])"
    by (simp add: spec_brute_force_run_def spec_exact_scores_def spec_gip_score_def
          argsort_desc_def select_def lessThan_nat_numeral lessThan_Suc)
  note t = theta_pruning_monotone_and_exact_at_0 [OF le, of "[1, 2, 3]"]
  have n: "num_idx 2 [1, 2, 3] \<le> num_idx 1 [1, 2, 3]"
    by (rule t [THEN conjunct1])
  have c: "num_idx 1 [1, 2, 3] = 2"
    by (simp add: num_idx_def)
  from t [THEN conjunct2, THEN conjunct2, THEN conjunct2, THEN mp, OF h, of "1 / 2"] s
  have "GIP_retrieval [''q''] [[1, 2, 3]] [[0, 0, 1]] [[1, 1, 1]] [[0, 1, 1]] ?a
          = Inr ([(''q'', [0])], [(''q'', [4])]) \<and>
        GIP_retrieval [''q''] [[1, 2, 3]] [[0, 0, 1]] [[1, 1, 1]] [[0, 1, 1]]
          (?a\<lparr>brute_force := True, theta := 1 / 2\<rparr>)
          = Inr ([(''q'', [0])], [(''q'', [4])])"
    by (simp add: padded_ids_def width_def)
  with n c s show ?thesis
    by simp
qed

end
